theory Spec2Isabelle
  imports Complex_Main "HOL-Library.AList"
begin

section \<open>The file cache of src/app.py\<close>

text \<open>
  The theory embeds the classes \<^verbatim>\<open>CachedFile\<close> and \<^verbatim>\<open>OptimizedFileCache\<close> of
  \<^verbatim>\<open>src/app.py\<close>. Python dictionaries keep insertion order, which the code observes
  (\<^verbatim>\<open>sorted\<close> is stable, \<^verbatim>\<open>next\<close> takes the first match), so a dictionary is an association
  list with distinct keys: assignment replaces the value in place or appends, \<^verbatim>\<open>pop\<close> removes.
  A Python \<^verbatim>\<open>str\<close> is modelled by its UTF-8 bytes, so that \<^verbatim>\<open>s.encode()\<close> is the same char
  list and \<^verbatim>\<open>len(s.encode())\<close> is its length. \<^verbatim>\<open>time.time()\<close> is an input of the operation
  that reads it.
\<close>

subsection \<open>Values\<close>

type_synonym file_id = string
type_synonym bytes = string
type_synonym timestamp = real

text \<open>A raised exception \<^verbatim>\<open>e\<close>, carrying \<^verbatim>\<open>str(e)\<close>.\<close>

datatype exn = Exception string

fun str :: "exn \<Rightarrow> string" where
  "str (Exception m) = m"

definition encode :: "string \<Rightarrow> bytes" where
  "encode s = s"

text \<open>A \<^verbatim>\<open>PIL.Image\<close>, as far as the code reads it.\<close>

record image =
  mode :: string
  width :: nat
  height :: nat

datatype pyval = Str string | Bool bool | Img image | Dict "(string \<times> pyval) list"

subsection \<open>Dictionaries\<close>

definition dict_keys :: "('k \<times> 'v) list \<Rightarrow> 'k list" where
  "dict_keys d = map fst d"

definition dict_get :: "('k \<times> 'v) list \<Rightarrow> 'k \<Rightarrow> 'v option" where
  "dict_get d k = map_of d k"

definition dict_set :: "('k \<times> 'v) list \<Rightarrow> 'k \<Rightarrow> 'v \<Rightarrow> ('k \<times> 'v) list" where
  "dict_set d k v = AList.update k v d"

definition dict_pop :: "('k \<times> 'v) list \<Rightarrow> 'k \<Rightarrow> ('k \<times> 'v) list" where
  "dict_pop d k = AList.delete k d"

subsection \<open>CachedFile\<close>

record cached_file =
  file_id :: file_id
  filename :: string
  content_type :: string
  processed_data :: "pyval option"
  memory_usage :: int
  file_hash :: string
  is_placeholder :: bool

definition CachedFile ::
  "file_id \<Rightarrow> string \<Rightarrow> string \<Rightarrow> pyval option \<Rightarrow> int \<Rightarrow> string \<Rightarrow> cached_file" where
  "CachedFile fid fname ctype pdata musage fhash =
     \<lparr>file_id = fid, filename = fname, content_type = ctype, processed_data = pdata,
      memory_usage = musage, file_hash = fhash, is_placeholder = False\<rparr>"

definition placeholder :: "file_id \<Rightarrow> string \<Rightarrow> cached_file" where
  "placeholder fid fname = (CachedFile fid fname ''processing'' None 0 '''')\<lparr>is_placeholder := True\<rparr>"

definition is_ready :: "cached_file \<Rightarrow> bool" where
  "is_ready cf = (\<not> is_placeholder cf \<and> processed_data cf \<noteq> None)"

text \<open>
  \<^verbatim>\<open>get_for_ai_model\<close>: \<^verbatim>\<open>Inr None\<close> is Python's \<^verbatim>\<open>None\<close>. The \<^verbatim>\<open>.get\<close> of the pdf branch
  exists on a dictionary only; on any other value Python raises \<^verbatim>\<open>AttributeError\<close>.
\<close>

definition get_for_ai_model :: "cached_file \<Rightarrow> exn + pyval option" where
  "get_for_ai_model cf =
     (if \<not> is_ready cf then Inr None
      else if content_type cf = ''image'' then Inr (processed_data cf)
      else if content_type cf = ''pdf'' then
        (case processed_data cf of
           Some (Dict d) \<Rightarrow> Inr (dict_get d ''text_content'')
         | _ \<Rightarrow> Inl (Exception ''AttributeError''))
      else Inr None)"

subsection \<open>The uploaded file and the libraries\<close>

text \<open>
  The file object handed over by the uploader: \<^verbatim>\<open>file_obj.name\<close>, \<^verbatim>\<open>file_obj.type\<close> and the
  outcome of \<^verbatim>\<open>file_obj.getvalue()\<close>, which returns the bytes or raises.
\<close>

record file_obj =
  fo_name :: string
  fo_type :: string
  fo_getvalue :: "exn + bytes"

text \<open>
  The library calls the cache makes, as parameters: \<^verbatim>\<open>hashlib.blake2b(_, digest_size=8).hexdigest()\<close>,
  \<^verbatim>\<open>Image.open\<close>, \<^verbatim>\<open>img.convert\<close>, \<^verbatim>\<open>img.thumbnail\<close> (each may raise), and \<^verbatim>\<open>fitz.open\<close>, which
  raises or yields the pages, each page being the outcome of its \<^verbatim>\<open>get_text()\<close>.
\<close>

record externals =
  blake2b_hexdigest :: "bytes \<Rightarrow> string"
  Image_open :: "bytes \<Rightarrow> exn + image"
  Image_convert :: "image \<Rightarrow> string \<Rightarrow> exn + image"
  Image_thumbnail :: "image \<Rightarrow> nat \<times> nat \<Rightarrow> exn + image"
  fitz_open :: "bytes \<Rightarrow> exn + (exn + string) list"

subsection \<open>OptimizedFileCache\<close>

text \<open>
  A future of the thread pool. A running job is at one of the points of
  \<^verbatim>\<open>process_file_async\<close> where the lock is free: picked up by a worker (\<open>Started\<close>), with
  the entry built and eviction ahead (\<open>Processed\<close>), between eviction and insertion
  (\<open>Admitted\<close>), and with its return value computed (\<open>Returning\<close>).
\<close>

datatype job_pc = Started | Processed cached_file | Admitted cached_file | Returning cached_file

datatype future_state = Pending | Cancelled | Running job_pc | Finished cached_file

record future =
  fut_file_id :: file_id
  fut_file_obj :: file_obj
  fut_state :: future_state

text \<open>
  The cache object. \<open>executor\<close> holds every future submitted so far, in submission order;
  \<open>processing_queue\<close> refers to a future by its position there.
\<close>

record file_cache =
  max_memory_bytes :: int
  cache :: "(file_id \<times> cached_file) list"
  processing_queue :: "(file_id \<times> nat) list"
  access_times :: "(file_id \<times> timestamp) list"
  current_memory_usage :: int
  executor :: "future list"
  max_workers :: nat

definition OptimizedFileCache :: "int \<Rightarrow> nat \<Rightarrow> file_cache" where
  "OptimizedFileCache max_memory_mb max_concurrent_processing =
     \<lparr>max_memory_bytes = max_memory_mb * 1024 * 1024, cache = [], processing_queue = [],
      access_times = [], current_memory_usage = 0, executor = [],
      max_workers = max_concurrent_processing\<rparr>"

definition get_global_file_cache :: file_cache where
  "get_global_file_cache = OptimizedFileCache 150 3"

definition get_file_hash :: "externals \<Rightarrow> bytes \<Rightarrow> string" where
  "get_file_hash ext file_data = blake2b_hexdigest ext (take 8192 file_data)"

text \<open>
  The loop of \<^verbatim>\<open>evict_lru_if_needed\<close> over the sorted snapshot. \<^verbatim>\<open>access_times.pop(file_id)\<close>
  cannot raise: the identifier was read from \<open>access_times\<close> under the same lock and only
  this loop removes keys meanwhile.
\<close>

fun evict_loop :: "(file_id \<times> timestamp) list \<Rightarrow> int \<Rightarrow> file_cache \<Rightarrow> file_cache" where
  "evict_loop [] needed_bytes s = s"
| "evict_loop ((fid, t) # sorted_files) needed_bytes s =
     (if current_memory_usage s + needed_bytes \<le> max_memory_bytes s then s
      else (case dict_get (cache s) fid of
              Some cached \<Rightarrow>
                evict_loop sorted_files needed_bytes
                  (s\<lparr>cache := dict_pop (cache s) fid,
                     access_times := dict_pop (access_times s) fid,
                     current_memory_usage := current_memory_usage s - memory_usage cached\<rparr>)
            | None \<Rightarrow> evict_loop sorted_files needed_bytes s))"

definition evict_lru_if_needed :: "int \<Rightarrow> file_cache \<Rightarrow> file_cache" where
  "evict_lru_if_needed needed_bytes s =
     (if current_memory_usage s + needed_bytes \<le> max_memory_bytes s then s
      else evict_loop (sort_key snd (access_times s)) needed_bytes s)"

definition optimize_image :: "externals \<Rightarrow> bytes \<Rightarrow> exn + image" where
  "optimize_image ext image_data =
     (case Image_open ext image_data of
        Inl e \<Rightarrow> Inl e
      | Inr img \<Rightarrow>
          (case (if mode img \<noteq> ''RGB'' then Image_convert ext img ''RGB'' else Inr img) of
             Inl e \<Rightarrow> Inl e
           | Inr img' \<Rightarrow> Image_thumbnail ext img' (1024, 1024)))"

fun get_texts :: "(exn + string) list \<Rightarrow> exn + string list" where
  "get_texts [] = Inr []"
| "get_texts (Inl e # pages) = Inl e"
| "get_texts (Inr t # pages) =
     (case get_texts pages of Inl e \<Rightarrow> Inl e | Inr ts \<Rightarrow> Inr (t # ts))"

fun join :: "string \<Rightarrow> string list \<Rightarrow> string" where
  "join sep [] = []"
| "join sep [x] = x"
| "join sep (x # y # ys) = x @ sep @ join sep (y # ys)"

definition pdf_error_text :: "exn \<Rightarrow> string" where
  "pdf_error_text e = ''[Errore estrazione PDF: '' @ str e @ '']''"

definition extract_pdf_text :: "externals \<Rightarrow> bytes \<Rightarrow> nat \<Rightarrow> (string \<times> pyval) list" where
  "extract_pdf_text ext pdf_data max_pages =
     (case fitz_open ext pdf_data of
        Inl e \<Rightarrow> [(''text_content'', Str (pdf_error_text e)), (''error'', Bool True)]
      | Inr doc \<Rightarrow>
          (case get_texts (take (min max_pages (length doc)) doc) of
             Inl e \<Rightarrow> [(''text_content'', Str (pdf_error_text e)), (''error'', Bool True)]
           | Inr text_content \<Rightarrow>
               [(''text_content'', Str (join [CHR 0x0A, CHR 0x0A] text_content))]))"

definition find_by_hash :: "file_cache \<Rightarrow> string \<Rightarrow> cached_file option" where
  "find_by_hash s fhash = find (\<lambda>f. file_hash f = fhash) (map snd (cache s))"

text \<open>The entry of the \<^verbatim>\<open>except\<close> branch of \<^verbatim>\<open>process_file_async\<close>.\<close>

definition error_entry :: "file_id \<Rightarrow> file_obj \<Rightarrow> exn \<Rightarrow> cached_file" where
  "error_entry fid fo e =
     CachedFile fid (fo_name fo) ''error'' (Some (Dict [(''error'', Str (str e))])) 0 ''''"

text \<open>
  \<^verbatim>\<open>process_file_async\<close> up to the construction of \<^verbatim>\<open>cached_file\<close>: reading and hashing the
  bytes, the lookup by hash (under the lock), and the processing, which touches nothing
  shared. The result is \<open>Returning\<close> where the function returns at once (an existing
  entry, or the error entry of the \<^verbatim>\<open>except\<close> branch) and \<open>Processed\<close> where eviction and
  insertion follow.
\<close>

definition process_prepare :: "externals \<Rightarrow> file_id \<Rightarrow> file_obj \<Rightarrow> file_cache \<Rightarrow> job_pc" where
  "process_prepare ext fid fo s =
     (case fo_getvalue fo of
        Inl e \<Rightarrow> Returning (error_entry fid fo e)
      | Inr file_data \<Rightarrow>
          (let fhash = get_file_hash ext file_data in
           case find_by_hash s fhash of
             Some existing \<Rightarrow> Returning existing
           | None \<Rightarrow>
               (if fo_type fo = ''application/pdf'' then
                  (let pdata = extract_pdf_text ext file_data 10 in
                   case dict_get pdata ''text_content'' of
                     Some (Str text) \<Rightarrow>
                       Processed (CachedFile fid (fo_name fo) ''pdf'' (Some (Dict pdata))
                         (int (length (encode text))) fhash)
                   | _ \<Rightarrow> Returning (error_entry fid fo (Exception ''KeyError'')))
                else
                  (case optimize_image ext file_data of
                     Inl e \<Rightarrow> Returning (error_entry fid fo e)
                   | Inr img \<Rightarrow>
                       Processed (CachedFile fid (fo_name fo) ''image'' (Some (Img img))
                         (int (width img * height img * 3)) fhash)))))"

text \<open>The locked block that inserts the entry; \<open>now\<close> is \<^verbatim>\<open>time.time()\<close>.\<close>

definition publish :: "file_id \<Rightarrow> cached_file \<Rightarrow> timestamp \<Rightarrow> file_cache \<Rightarrow> file_cache" where
  "publish fid cached now s =
     s\<lparr>cache := dict_set (cache s) fid cached,
       access_times := dict_set (access_times s) fid now,
       current_memory_usage := current_memory_usage s + memory_usage cached\<rparr>"

text \<open>
  \<^verbatim>\<open>process_file_async\<close> run by one worker with no other operation in between: its return
  value and the cache afterwards.
\<close>

definition process_file_async ::
  "externals \<Rightarrow> file_id \<Rightarrow> file_obj \<Rightarrow> timestamp \<Rightarrow> file_cache \<Rightarrow> cached_file \<times> file_cache" where
  "process_file_async ext fid fo now s =
     (case process_prepare ext fid fo s of
        Processed cached \<Rightarrow> (cached, publish fid cached now (evict_lru_if_needed (memory_usage cached) s))
      | Admitted cached \<Rightarrow> (cached, s)
      | Returning cached \<Rightarrow> (cached, s)
      | Started \<Rightarrow> (error_entry fid fo (Exception ''unreachable''), s))"

text \<open>
  \<^verbatim>\<open>future.done()\<close> and \<^verbatim>\<open>future.result()\<close>; the result of a cancelled future raises
  \<^verbatim>\<open>CancelledError\<close>. \<^verbatim>\<open>get_or_create\<close> calls \<^verbatim>\<open>result()\<close> on a future that is done only.
\<close>

definition future_done :: "future \<Rightarrow> bool" where
  "future_done f = (case fut_state f of Cancelled \<Rightarrow> True | Finished r \<Rightarrow> True | _ \<Rightarrow> False)"

definition future_result :: "future \<Rightarrow> exn + cached_file" where
  "future_result f = (case fut_state f of Finished r \<Rightarrow> Inr r | _ \<Rightarrow> Inl (Exception ''CancelledError''))"

definition submit :: "file_id \<Rightarrow> file_obj \<Rightarrow> file_cache \<Rightarrow> nat \<times> file_cache" where
  "submit fid fo s =
     (length (executor s),
      s\<lparr>executor := executor s @ [\<lparr>fut_file_id = fid, fut_file_obj = fo, fut_state = Pending\<rparr>]\<rparr>)"

definition get_or_create ::
  "file_id \<Rightarrow> file_obj \<Rightarrow> timestamp \<Rightarrow> file_cache \<Rightarrow> (exn + cached_file) \<times> file_cache" where
  "get_or_create fid fo now s =
     (case dict_get (cache s) fid of
        Some cached \<Rightarrow> (Inr cached, s\<lparr>access_times := dict_set (access_times s) fid now\<rparr>)
      | None \<Rightarrow>
          (case dict_get (processing_queue s) fid of
             Some j \<Rightarrow>
               (if future_done (executor s ! j)
                then (future_result (executor s ! j), s\<lparr>processing_queue := dict_pop (processing_queue s) fid\<rparr>)
                else (Inr (placeholder fid (fo_name fo)), s))
           | None \<Rightarrow>
               (let (j, s') = submit fid fo s
                in (Inr (placeholder fid (fo_name fo)),
                    s'\<lparr>processing_queue := dict_set (processing_queue s') fid j\<rparr>))))"

definition remove_file :: "file_id \<Rightarrow> file_cache \<Rightarrow> file_cache" where
  "remove_file fid s =
     (case dict_get (cache s) fid of
        Some cached \<Rightarrow>
          s\<lparr>cache := dict_pop (cache s) fid,
            access_times := dict_pop (access_times s) fid,
            current_memory_usage := current_memory_usage s - memory_usage cached\<rparr>
      | None \<Rightarrow> s)"

text \<open>\<^verbatim>\<open>future.cancel()\<close> cancels a future that has not started and leaves any other as it is.\<close>

definition cancel :: "future \<Rightarrow> future" where
  "cancel f = (if fut_state f = Pending then f\<lparr>fut_state := Cancelled\<rparr> else f)"

definition clear :: "file_cache \<Rightarrow> file_cache" where
  "clear s =
     s\<lparr>cache := [], access_times := [], current_memory_usage := 0,
       executor := map (\<lambda>(j, f). if j \<in> set (map snd (processing_queue s)) then cancel f else f)
                     (enumerate 0 (executor s)),
       processing_queue := []\<rparr>"

subsection \<open>Interleavings\<close>

text \<open>
  Every access to the shared fields happens with the lock held, so an execution is a
  sequence of the locked blocks of the callers and of the workers. A worker takes the
  oldest future that has not started, while fewer than \<open>max_workers\<close> jobs run.
\<close>

datatype event =
    GetOrCreate file_id file_obj timestamp
  | RemoveFile file_id
  | Clear
  | JobStart nat
  | JobPrepare nat
  | JobEvict nat
  | JobPublish nat timestamp
  | JobReturn nat

definition set_state :: "nat \<Rightarrow> future_state \<Rightarrow> file_cache \<Rightarrow> file_cache" where
  "set_state j st s = s\<lparr>executor := (executor s)[j := (executor s ! j)\<lparr>fut_state := st\<rparr>]\<rparr>"

definition running :: "file_cache \<Rightarrow> nat" where
  "running s = length (filter (\<lambda>f. case fut_state f of Running pc \<Rightarrow> True | _ \<Rightarrow> False) (executor s))"

definition may_start :: "file_cache \<Rightarrow> nat \<Rightarrow> bool" where
  "may_start s j =
     (j < length (executor s) \<and> fut_state (executor s ! j) = Pending \<and>
      list_all (\<lambda>f. fut_state f \<noteq> Pending) (take j (executor s)) \<and> running s < max_workers s)"

definition job_state :: "file_cache \<Rightarrow> nat \<Rightarrow> future_state option" where
  "job_state s j = (if j < length (executor s) then Some (fut_state (executor s ! j)) else None)"

fun step :: "externals \<Rightarrow> event \<Rightarrow> file_cache \<Rightarrow> file_cache option" where
  "step ext (GetOrCreate fid fo now) s = Some (snd (get_or_create fid fo now s))"
| "step ext (RemoveFile fid) s = Some (remove_file fid s)"
| "step ext Clear s = Some (clear s)"
| "step ext (JobStart j) s = (if may_start s j then Some (set_state j (Running Started) s) else None)"
| "step ext (JobPrepare j) s =
     (case job_state s j of
        Some (Running Started) \<Rightarrow>
          Some (set_state j
                  (Running (process_prepare ext (fut_file_id (executor s ! j)) (fut_file_obj (executor s ! j)) s)) s)
      | _ \<Rightarrow> None)"
| "step ext (JobEvict j) s =
     (case job_state s j of
        Some (Running (Processed cached)) \<Rightarrow>
          Some (set_state j (Running (Admitted cached)) (evict_lru_if_needed (memory_usage cached) s))
      | _ \<Rightarrow> None)"
| "step ext (JobPublish j now) s =
     (case job_state s j of
        Some (Running (Admitted cached)) \<Rightarrow>
          Some (set_state j (Running (Returning cached)) (publish (fut_file_id (executor s ! j)) cached now s))
      | _ \<Rightarrow> None)"
| "step ext (JobReturn j) s =
     (case job_state s j of
        Some (Running (Returning cached)) \<Rightarrow> Some (set_state j (Finished cached) s)
      | _ \<Rightarrow> None)"

fun run :: "externals \<Rightarrow> event list \<Rightarrow> file_cache \<Rightarrow> file_cache option" where
  "run ext [] s = Some s"
| "run ext (ev # evs) s = (case step ext ev s of None \<Rightarrow> None | Some s' \<Rightarrow> run ext evs s')"

text \<open>The job whose worker performs an event; a call from outside belongs to no job.\<close>

fun job_of :: "event \<Rightarrow> nat option" where
  "job_of (JobStart j) = Some j"
| "job_of (JobPrepare j) = Some j"
| "job_of (JobEvict j) = Some j"
| "job_of (JobPublish j now) = Some j"
| "job_of (JobReturn j) = Some j"
| "job_of (GetOrCreate fid fo now) = None"
| "job_of (RemoveFile fid) = None"
| "job_of Clear = None"

subsection \<open>Concrete inputs\<close>

text \<open>
  Library behaviour for the concrete runs below: the digest is the hashed prefix itself,
  every image but \<open>''bad''\<close> opens as a 512 by 512 RGB bitmap, and \<open>''%PDF''\<close> is the only
  readable document, of two pages.
\<close>

definition demo_ext :: externals where
  "demo_ext =
     \<lparr>blake2b_hexdigest = (\<lambda>b. b),
      Image_open = (\<lambda>b. if b = ''bad'' then Inl (Exception ''cannot identify image file'')
                         else Inr \<lparr>mode = ''RGB'', width = 512, height = 512\<rparr>),
      Image_convert = (\<lambda>img m. Inr (img\<lparr>mode := m\<rparr>)),
      Image_thumbnail = (\<lambda>img sz. Inr img),
      fitz_open = (\<lambda>b. if b = ''%PDF'' then Inr [Inr ''one'', Inr ''two'']
                        else Inl (Exception ''broken document''))\<rparr>"

definition png :: "string \<Rightarrow> bytes \<Rightarrow> file_obj" where
  "png n b = \<lparr>fo_name = n, fo_type = ''image/png'', fo_getvalue = Inr b\<rparr>"

definition pdf :: "string \<Rightarrow> bytes \<Rightarrow> file_obj" where
  "pdf n b = \<lparr>fo_name = n, fo_type = ''application/pdf'', fo_getvalue = Inr b\<rparr>"

text \<open>What a run is observed by: the keys of the three dictionaries and the byte count.\<close>

definition snapshot :: "file_cache \<Rightarrow> file_id list \<times> file_id list \<times> file_id list \<times> int" where
  "snapshot s =
     (dict_keys (cache s), dict_keys (access_times s), dict_keys (processing_queue s),
      current_memory_usage s)"

text \<open>
  The state after one image \<open>''a''\<close> was requested, processed and inserted, and its job
  returned: the entry is cached and the finished future is still recorded.
\<close>

definition cached_a :: cached_file where
  "cached_a =
     CachedFile ''a'' ''a.png'' ''image'' (Some (Img \<lparr>mode = ''RGB'', width = 512, height = 512\<rparr>))
       786432 ''xx''"

definition run_a :: "event list" where
  "run_a =
     [GetOrCreate ''a'' (png ''a.png'' ''xx'') 1, JobStart 0, JobPrepare 0, JobEvict 0,
      JobPublish 0 2, JobReturn 0]"

definition state_a :: file_cache where
  "state_a =
     \<lparr>max_memory_bytes = 1048576, cache = [(''a'', cached_a)], processing_queue = [(''a'', 0)],
      access_times = [(''a'', 2)], current_memory_usage = 786432,
      executor = [\<lparr>fut_file_id = ''a'', fut_file_obj = png ''a.png'' ''xx'', fut_state = Finished cached_a\<rparr>],
      max_workers = 2\<rparr>"

text \<open>The state of the same run just before the job inserts its entry.\<close>

definition state_a_admitted :: file_cache where
  "state_a_admitted =
     \<lparr>max_memory_bytes = 1048576, cache = [], processing_queue = [(''a'', 0)],
      access_times = [], current_memory_usage = 0,
      executor = [\<lparr>fut_file_id = ''a'', fut_file_obj = png ''a.png'' ''xx'',
                   fut_state = Running (Admitted cached_a)\<rparr>],
      max_workers = 2\<rparr>"

text \<open>The state of the same run when the job has been submitted and not started.\<close>

definition state_a_pending :: file_cache where
  "state_a_pending =
     \<lparr>max_memory_bytes = 1048576, cache = [], processing_queue = [(''a'', 0)],
      access_times = [], current_memory_usage = 0,
      executor = [\<lparr>fut_file_id = ''a'', fut_file_obj = png ''a.png'' ''xx'', fut_state = Pending\<rparr>],
      max_workers = 2\<rparr>"

text \<open>The state of the same run when a worker has picked the job up.\<close>

definition state_a_started :: file_cache where
  "state_a_started =
     \<lparr>max_memory_bytes = 1048576, cache = [], processing_queue = [(''a'', 0)],
      access_times = [], current_memory_usage = 0,
      executor = [\<lparr>fut_file_id = ''a'', fut_file_obj = png ''a.png'' ''xx'', fut_state = Running Started\<rparr>],
      max_workers = 2\<rparr>"

text \<open>
  The state of the same run after the job has inserted its entry and before it has
  returned: the future is recorded and not done, and the entry is cached.
\<close>

definition run_published :: "event list" where
  "run_published =
     [GetOrCreate ''a'' (png ''a.png'' ''xx'') 1, JobStart 0, JobPrepare 0, JobEvict 0, JobPublish 0 2]"

definition state_a_published :: file_cache where
  "state_a_published =
     \<lparr>max_memory_bytes = 1048576, cache = [(''a'', cached_a)], processing_queue = [(''a'', 0)],
      access_times = [(''a'', 2)], current_memory_usage = 786432,
      executor = [\<lparr>fut_file_id = ''a'', fut_file_obj = png ''a.png'' ''xx'',
                   fut_state = Running (Returning cached_a)\<rparr>],
      max_workers = 2\<rparr>"

text \<open>
  A run in which \<open>''a''\<close> is requested again after \<^verbatim>\<open>clear\<close>, and the job started before
  \<^verbatim>\<open>clear\<close> inserts its entry while the new job has not started.
\<close>

definition run_stale :: "event list" where
  "run_stale =
     [GetOrCreate ''a'' (png ''a.png'' ''xx'') 1, JobStart 0, Clear,
      GetOrCreate ''a'' (png ''a.png'' ''xx'') 2, JobPrepare 0, JobEvict 0, JobPublish 0 3]"

text \<open>What a caller gets back from \<^verbatim>\<open>get_or_create\<close>, and the states of all futures.\<close>

definition lookup :: "file_id \<Rightarrow> file_obj \<Rightarrow> timestamp \<Rightarrow> file_cache \<Rightarrow> exn + cached_file" where
  "lookup fid fo now s = fst (get_or_create fid fo now s)"

definition job_states :: "file_cache \<Rightarrow> future_state list" where
  "job_states s = map fut_state (executor s)"

text \<open>A run in which \<^verbatim>\<open>clear\<close> is called while the job of \<open>''a''\<close> is running.\<close>

definition run_clear :: "event list" where
  "run_clear =
     [GetOrCreate ''a'' (png ''a.png'' ''xx'') 1, JobStart 0, Clear, JobPrepare 0, JobEvict 0,
      JobPublish 0 2, JobReturn 0]"



definition run_dup :: "event list" where
  "run_dup = run_a @ [GetOrCreate ''b'' (png ''b.png'' ''xx'') 3, JobStart 1, JobPrepare 1, JobReturn 1]"


text \<open>
  The extraction of \<^verbatim>\<open>extract_pdf_text\<close> fails with \<open>e\<close>: \<^verbatim>\<open>fitz.open\<close> raises it, or the
  document opens and, among the pages read (the first \<open>min max_pages (len doc)\<close>, in
  order), the first page whose \<^verbatim>\<open>get_text()\<close> raises, raises \<open>e\<close>. This is stated on the
  outcomes of the library alone.
\<close>

definition extraction_fails :: "externals \<Rightarrow> bytes \<Rightarrow> nat \<Rightarrow> exn \<Rightarrow> bool" where
  "extraction_fails ext pdf_data max_pages e =
     (case fitz_open ext pdf_data of
        Inl e' \<Rightarrow> e' = e
      | Inr doc \<Rightarrow> find isl (take (min max_pages (length doc)) doc) = Some (Inl e))"

text \<open>A library for which every document opens, with three pages of which the second cannot be read.\<close>

definition torn_ext :: externals where
  "torn_ext =
     demo_ext\<lparr>fitz_open := (\<lambda>b. Inr [Inr ''one'', Inl (Exception ''cannot read page''), Inr ''three''])\<rparr>"

text \<open>
  The entry a future holds, if any, and the shapes of the entries the code builds: an image
  entry holds a bitmap, a pdf entry a dictionary with a text under \<open>text_content\<close>, an
  error entry a dictionary. A state is consistent when every cached entry and every entry
  held by a future has one of these shapes and \<open>processing_queue\<close> refers to futures that
  exist.
\<close>

fun held :: "future_state \<Rightarrow> cached_file option" where
  "held (Running (Processed c)) = Some c"
| "held (Running (Admitted c)) = Some c"
| "held (Running (Returning c)) = Some c"
| "held (Finished c) = Some c"
| "held _ = None"

fun bitmap_of :: "pyval option \<Rightarrow> image option" where
  "bitmap_of (Some (Img img)) = Some img"
| "bitmap_of _ = None"

fun text_of :: "pyval option \<Rightarrow> string option" where
  "text_of (Some (Dict d)) = (case dict_get d ''text_content'' of Some (Str body) \<Rightarrow> Some body | _ \<Rightarrow> None)"
| "text_of _ = None"

fun is_dict :: "pyval option \<Rightarrow> bool" where
  "is_dict (Some (Dict d)) = True"
| "is_dict _ = False"

definition materialized :: "cached_file \<Rightarrow> bool" where
  "materialized cf =
     (\<not> is_placeholder cf \<and>
      (content_type cf = ''image'' \<and> bitmap_of (processed_data cf) \<noteq> None
       \<or> content_type cf = ''pdf'' \<and> text_of (processed_data cf) \<noteq> None
       \<or> content_type cf = ''error'' \<and> is_dict (processed_data cf)))"

definition consistent :: "file_cache \<Rightarrow> bool" where
  "consistent s =
     (list_all (\<lambda>(k, cf). materialized cf) (cache s)
      \<and> list_all (\<lambda>f. case held (fut_state f) of Some cf \<Rightarrow> materialized cf | None \<Rightarrow> True) (executor s)
      \<and> list_all (\<lambda>(k, j). j < length (executor s)) (processing_queue s))"

text \<open>
  The accounting the cache is meant to keep: \<open>same_keys\<close> says that \<open>cache\<close> and
  \<open>access_times\<close> have the same, distinct keys; \<open>total_cost\<close> is the sum of the costs of the
  cached entries; a state is \<open>accounted\<close> when the keys agree and \<open>current_memory_usage\<close> is
  that sum; \<open>within_budget\<close> allows an excess
  only for a single cached entry whose own cost exceeds the budget. Two runs follow in
  which the locked blocks of two jobs alternate: two images admitted together, and an
  identifier requested again after \<^verbatim>\<open>clear\<close> while its first job still runs.
\<close>

definition same_keys :: "file_cache \<Rightarrow> bool" where
  "same_keys s =
     (distinct (dict_keys (cache s)) \<and> distinct (dict_keys (access_times s))
      \<and> set (dict_keys (access_times s)) = set (dict_keys (cache s)))"









text \<open>
  Eviction as the specification words it: the entry with the oldest access time (among
  equal times, the first in the dictionary), its removal from \<open>cache\<close> and \<open>access_times\<close>
  with its cost subtracted, and the repetition of both until the candidate fits or no
  entry is left.
\<close>

fun oldest :: "(file_id \<times> timestamp) list \<Rightarrow> (file_id \<times> timestamp) option" where
  "oldest [] = None"
| "oldest (x # xs) =
     (case oldest xs of None \<Rightarrow> Some x | Some m \<Rightarrow> if snd x \<le> snd m then Some x else Some m)"

definition evict_entry :: "file_id \<Rightarrow> file_cache \<Rightarrow> file_cache" where
  "evict_entry fid s =
     s\<lparr>cache := dict_pop (cache s) fid,
       access_times := dict_pop (access_times s) fid,
       current_memory_usage :=
         current_memory_usage s - (case dict_get (cache s) fid of Some cached \<Rightarrow> memory_usage cached | None \<Rightarrow> 0)\<rparr>"

function evict_oldest_until_fits :: "int \<Rightarrow> file_cache \<Rightarrow> file_cache" where
  "evict_oldest_until_fits needed_bytes s =
     (if current_memory_usage s + needed_bytes \<le> max_memory_bytes s then s
      else (case oldest (access_times s) of
              None \<Rightarrow> s
            | Some (fid, t) \<Rightarrow> evict_oldest_until_fits needed_bytes (evict_entry fid s)))"
  by pat_completeness auto
termination
proof (relation "measure (\<lambda>(n, s). length (access_times s))")
  show "wf (measure (\<lambda>(n, s). length (access_times s)))" by simp
next
  fix needed_bytes :: int and s :: file_cache and x2 fid t
  assume a: "oldest (access_times s) = Some x2" "(fid, t) = x2"
  have mem: "m \<in> set xs" if "oldest xs = Some m" for xs m
    using that by (induction xs arbitrary: m) (auto split: option.splits if_splits)
  have pop: "dict_pop d k = filter (\<lambda>p. fst p \<noteq> k) d" for d :: "(file_id \<times> timestamp) list" and k
    by (induction d) (auto simp: dict_pop_def)
  have "(fid, t) \<in> set (access_times s)"
    using a mem by metis
  then have "length (filter (\<lambda>p. fst p \<noteq> fid) (access_times s)) < length (access_times s)"
    by (intro length_filter_less [of "(fid, t)"]) simp_all
  then show "((needed_bytes, evict_entry fid s), (needed_bytes, s)) \<in> measure (\<lambda>(n, s). length (access_times s))"
    by (simp add: evict_entry_def pop)
qed

declare evict_oldest_until_fits.simps [simp del]

text \<open>
  Three entries A, B, C of given costs, accessed at 1, 2 and 3, stored in another order.
\<close>

definition sized :: "file_id \<Rightarrow> int \<Rightarrow> cached_file" where
  "sized fid cost = CachedFile fid fid ''pdf'' (Some (Dict [(''text_content'', Str [])])) cost fid"

definition lru_example :: "int \<Rightarrow> int \<Rightarrow> int \<Rightarrow> int \<Rightarrow> file_cache" where
  "lru_example budget cost_a cost_b cost_c =
     \<lparr>max_memory_bytes = budget,
      cache = [(''C'', sized ''C'' cost_c), (''A'', sized ''A'' cost_a), (''B'', sized ''B'' cost_b)],
      processing_queue = [],
      access_times = [(''C'', 3), (''A'', 1), (''B'', 2)],
      current_memory_usage = cost_a + cost_b + cost_c, executor = [], max_workers = 2\<rparr>"

section \<open>Properties\<close>

subsection \<open>Basic facts\<close>

lemmas dict_defs = dict_keys_def dict_get_def dict_set_def dict_pop_def

lemmas run_defs =
  demo_ext_def png_def pdf_def OptimizedFileCache_def get_or_create_def submit_def
  placeholder_def CachedFile_def error_entry_def may_start_def running_def job_state_def
  set_state_def process_prepare_def get_file_hash_def find_by_hash_def optimize_image_def
  extract_pdf_text_def pdf_error_text_def encode_def evict_lru_if_needed_def publish_def
  remove_file_def clear_def cancel_def future_done_def future_result_def snapshot_def
  is_ready_def

lemma update_absent: "map_of d k = None \<Longrightarrow> AList.update k v d = d @ [(k, v)]"
  by (induction d) (auto split: if_splits)

lemma dict_set_absent: "dict_get d k = None \<Longrightarrow> dict_set d k v = d @ [(k, v)]"
  by (simp add: dict_defs update_absent)

lemma dict_get_pop_same: "dict_get (dict_pop d k) k = None"
  by (simp add: dict_defs AList.delete_conv')

subsection \<open>Lookup of an unknown identifier\<close>

text \<open>
  C5, as the code has it. \<^verbatim>\<open>get_or_create\<close> on an identifier that is neither in \<open>cache\<close>
  nor in \<open>processing_queue\<close> appends exactly one future, not yet started, to the executor,
  records it in \<open>processing_queue\<close> and returns a placeholder; it has no access to the
  processors (it takes no library parameter). A further call for the same identifier
  while its recorded future is not done submits nothing: \<open>processing_queue\<close> and the
  executor stay as they are. It returns a placeholder and changes nothing as long as the
  identifier is not cached, as it is directly after the first call; once the identifier is
  cached it returns the cached entry and sets its access time, although the future is not
  done.
\<close>

theorem get_or_create_submits_once:
  assumes "dict_get (cache s) fid = None" and "dict_get (processing_queue s) fid = None"
  shows "get_or_create fid fo now s =
           (Inr (placeholder fid (fo_name fo)),
            s\<lparr>executor := executor s @ [\<lparr>fut_file_id = fid, fut_file_obj = fo, fut_state = Pending\<rparr>],
              processing_queue := processing_queue s @ [(fid, length (executor s))]\<rparr>)
         \<and> get_or_create fid fo' now' (snd (get_or_create fid fo now s)) =
           (Inr (placeholder fid (fo_name fo')), snd (get_or_create fid fo now s))
         \<and> (\<forall>s2 j. dict_get (processing_queue s2) fid = Some j
               \<longrightarrow> j < length (executor s2) \<longrightarrow> \<not> future_done (executor s2 ! j)
               \<longrightarrow> processing_queue (snd (get_or_create fid fo' now' s2)) = processing_queue s2
                 \<and> executor (snd (get_or_create fid fo' now' s2)) = executor s2
                 \<and> (dict_get (cache s2) fid = None
                      \<longrightarrow> get_or_create fid fo' now' s2 = (Inr (placeholder fid (fo_name fo')), s2))
                 \<and> (\<forall>cached. dict_get (cache s2) fid = Some cached
                      \<longrightarrow> get_or_create fid fo' now' s2 =
                           (Inr cached, s2\<lparr>access_times := dict_set (access_times s2) fid now'\<rparr>)))"
proof -
  let ?f = "\<lparr>fut_file_id = fid, fut_file_obj = fo, fut_state = Pending\<rparr>"
  let ?s' = "s\<lparr>executor := executor s @ [?f],
                processing_queue := processing_queue s @ [(fid, length (executor s))]\<rparr>"
  have first: "get_or_create fid fo now s = (Inr (placeholder fid (fo_name fo)), ?s')"
    using assms by (simp add: get_or_create_def submit_def dict_set_absent)
  have waiting: "get_or_create fid fo' now' s2 = (Inr (placeholder fid (fo_name fo')), s2)"
    if "dict_get (cache s2) fid = None" "dict_get (processing_queue s2) fid = Some j"
       "\<not> future_done (executor s2 ! j)" for s2 j
    using that by (simp add: get_or_create_def)
  have cached: "get_or_create fid fo' now' s2 =
                  (Inr cached, s2\<lparr>access_times := dict_set (access_times s2) fid now'\<rparr>)"
    if "dict_get (cache s2) fid = Some cached" for s2 cached
    using that by (simp add: get_or_create_def)
  have kept: "processing_queue (snd (get_or_create fid fo' now' s2)) = processing_queue s2
      \<and> executor (snd (get_or_create fid fo' now' s2)) = executor s2"
    if "dict_get (processing_queue s2) fid = Some j" "\<not> future_done (executor s2 ! j)" for s2 j
    using that by (cases "dict_get (cache s2) fid") (simp_all add: get_or_create_def)
  have q: "dict_get (processing_queue ?s') fid = Some (length (executor s))"
    using assms(2) by (simp add: dict_get_def map_add_Some_iff)
  have nd: "\<not> future_done (executor ?s' ! length (executor s))"
    by (simp add: future_done_def)
  have c: "dict_get (cache ?s') fid = None"
    using assms(1) by simp
  have "get_or_create fid fo' now' ?s' = (Inr (placeholder fid (fo_name fo')), ?s')"
    by (rule waiting [OF c q nd])
  with first waiting cached kept show ?thesis by simp
qed

lemma run_published_state: "run demo_ext run_published (OptimizedFileCache 1 2) = Some state_a_published"
  by (simp add: run_published_def state_a_published_def cached_a_def run_defs dict_defs)

theorem get_or_create_submits_once_witness:
  "dict_get (cache (OptimizedFileCache 1 2)) ''a'' = None
   \<and> dict_get (processing_queue (OptimizedFileCache 1 2)) ''a'' = None
   \<and> snapshot (snd (get_or_create ''a'' (png ''a.png'' ''xx'') 1 (OptimizedFileCache 1 2))) = ([], [], [''a''], 0)
   \<and> map fut_state (executor (snd (get_or_create ''a'' (png ''a.png'' ''xx'') 1 (OptimizedFileCache 1 2)))) = [Pending]
   \<and> get_or_create ''a'' (png ''a.png'' ''xx'') 2
        (snd (get_or_create ''a'' (png ''a.png'' ''xx'') 1 (OptimizedFileCache 1 2))) =
      (Inr (placeholder ''a'' ''a.png''), snd (get_or_create ''a'' (png ''a.png'' ''xx'') 1 (OptimizedFileCache 1 2)))
   \<and> dict_get (processing_queue state_a_published) ''a'' = Some 0
   \<and> dict_get (cache state_a_published) ''a'' = Some cached_a
   \<and> get_or_create ''a'' (png ''a.png'' ''xx'') 2 state_a_published =
        (Inr cached_a, state_a_published\<lparr>access_times := [(''a'', 2)]\<rparr>)"
proof -
  note inst = get_or_create_submits_once [of "OptimizedFileCache 1 2" "''a''" "png ''a.png'' ''xx''" 1
      "png ''a.png'' ''xx''" 2]
  have h: "dict_get (cache (OptimizedFileCache 1 2)) ''a'' = None"
    "dict_get (processing_queue (OptimizedFileCache 1 2)) ''a'' = None"
    by (simp_all add: OptimizedFileCache_def dict_get_def)
  have q: "dict_get (processing_queue state_a_published) ''a'' = Some 0"
    "0 < length (executor state_a_published)"
    "\<not> future_done (executor state_a_published ! 0)"
    "dict_get (cache state_a_published) ''a'' = Some cached_a"
    by (simp_all add: state_a_published_def dict_get_def future_done_def)
  from inst [OF h] have
    "get_or_create ''a'' (png ''a.png'' ''xx'') 2
        (snd (get_or_create ''a'' (png ''a.png'' ''xx'') 1 (OptimizedFileCache 1 2))) =
      (Inr (placeholder ''a'' (fo_name (png ''a.png'' ''xx''))),
       snd (get_or_create ''a'' (png ''a.png'' ''xx'') 1 (OptimizedFileCache 1 2)))"
    by (rule conjunct1 [OF conjunct2])
  then have
    "get_or_create ''a'' (png ''a.png'' ''xx'') 2
        (snd (get_or_create ''a'' (png ''a.png'' ''xx'') 1 (OptimizedFileCache 1 2))) =
      (Inr (placeholder ''a'' ''a.png''), snd (get_or_create ''a'' (png ''a.png'' ''xx'') 1 (OptimizedFileCache 1 2)))"
    by (simp only: png_def file_obj.simps)
  moreover from inst [OF h] q have
    "get_or_create ''a'' (png ''a.png'' ''xx'') 2 state_a_published =
        (Inr cached_a, state_a_published\<lparr>access_times := dict_set (access_times state_a_published) ''a'' 2\<rparr>)"
    by blast
  then have "get_or_create ''a'' (png ''a.png'' ''xx'') 2 state_a_published =
        (Inr cached_a, state_a_published\<lparr>access_times := [(''a'', 2)]\<rparr>)"
    by (simp add: state_a_published_def dict_set_def)
  moreover have
    "snapshot (snd (get_or_create ''a'' (png ''a.png'' ''xx'') 1 (OptimizedFileCache 1 2))) = ([], [], [''a''], 0)"
    "map fut_state (executor (snd (get_or_create ''a'' (png ''a.png'' ''xx'') 1 (OptimizedFileCache 1 2)))) = [Pending]"
    by (simp_all add: run_defs dict_defs)
  ultimately show ?thesis
    using h q by simp
qed

theorem recorded_job_returns_cached_entry:
  "run demo_ext run_published (OptimizedFileCache 1 2) = Some state_a_published
   \<and> dict_get (processing_queue state_a_published) ''a'' = Some 0
   \<and> job_states state_a_published = [Running (Returning cached_a)]
   \<and> future_done (executor state_a_published ! 0) = False
   \<and> lookup ''a'' (png ''a.png'' ''xx'') 3 state_a_published = Inr cached_a
   \<and> is_placeholder cached_a = False
   \<and> is_ready cached_a
   \<and> map_option snapshot (run demo_ext run_stale (OptimizedFileCache 1 2)) =
       Some ([''a''], [''a''], [''a''], 786432)
   \<and> map_option job_states (run demo_ext run_stale (OptimizedFileCache 1 2)) =
       Some [Running (Returning cached_a), Pending]
   \<and> map_option (\<lambda>s. dict_get (processing_queue s) ''a'') (run demo_ext run_stale (OptimizedFileCache 1 2)) =
       Some (Some 1)
   \<and> map_option (lookup ''a'' (png ''a.png'' ''xx'') 4) (run demo_ext run_stale (OptimizedFileCache 1 2)) =
       Some (Inr cached_a)"
  using run_published_state
  by (simp add: state_a_published_def run_stale_def cached_a_def lookup_def job_states_def run_defs
      dict_defs nth_enumerate_eq)

subsection \<open>A removed entry and its finished job\<close>

text \<open>
  C10. \<^verbatim>\<open>remove_file\<close> deletes the entry, its access time and its cost and never touches
  \<open>processing_queue\<close> or the futures. If the finished job of that identifier is still
  recorded there, the next \<^verbatim>\<open>get_or_create\<close> pops it and returns its result, while
  \<open>cache\<close>, \<open>access_times\<close> and \<open>current_memory_usage\<close> stay as \<^verbatim>\<open>remove_file\<close> left them:
  the identifier is not inserted again and no cost is added.
\<close>

theorem removed_entry_returned_once:
  assumes "dict_get (cache s) fid = Some old"
    and "dict_get (processing_queue s) fid = Some j"
    and "fut_state (executor s ! j) = Finished cached"
  shows "processing_queue (remove_file fid s) = processing_queue s
         \<and> executor (remove_file fid s) = executor s
         \<and> current_memory_usage (remove_file fid s) = current_memory_usage s - memory_usage old
         \<and> get_or_create fid fo now (remove_file fid s) =
             (Inr cached, (remove_file fid s)\<lparr>processing_queue := dict_pop (processing_queue s) fid\<rparr>)
         \<and> cache (snd (get_or_create fid fo now (remove_file fid s))) = cache (remove_file fid s)
         \<and> access_times (snd (get_or_create fid fo now (remove_file fid s))) = access_times (remove_file fid s)
         \<and> current_memory_usage (snd (get_or_create fid fo now (remove_file fid s))) =
             current_memory_usage (remove_file fid s)
         \<and> dict_get (cache (snd (get_or_create fid fo now (remove_file fid s)))) fid = None
         \<and> dict_get (processing_queue (snd (get_or_create fid fo now (remove_file fid s)))) fid = None"
proof -
  let ?r = "remove_file fid s"
  have r: "processing_queue ?r = processing_queue s" "executor ?r = executor s"
    "current_memory_usage ?r = current_memory_usage s - memory_usage old"
    "dict_get (cache ?r) fid = None"
    using assms(1) by (simp_all add: remove_file_def dict_get_pop_same)
  have g: "get_or_create fid fo now ?r =
             (Inr cached, ?r\<lparr>processing_queue := dict_pop (processing_queue s) fid\<rparr>)"
    using r assms(2,3) by (simp add: get_or_create_def future_done_def future_result_def)
  show ?thesis
    using r g by (simp add: dict_get_pop_same)
qed

lemma run_a_state: "run demo_ext run_a (OptimizedFileCache 1 2) = Some state_a"
  by (simp add: run_a_def state_a_def cached_a_def run_defs dict_defs)

theorem removed_entry_returned_once_witness:
  "run demo_ext run_a (OptimizedFileCache 1 2) = Some state_a
   \<and> dict_get (cache state_a) ''a'' = Some cached_a
   \<and> dict_get (processing_queue state_a) ''a'' = Some 0
   \<and> fut_state (executor state_a ! 0) = Finished cached_a
   \<and> snapshot (remove_file ''a'' state_a) = ([], [], [''a''], 0)
   \<and> fst (get_or_create ''a'' (png ''a.png'' ''xx'') 3 (remove_file ''a'' state_a)) = Inr cached_a
   \<and> snapshot (snd (get_or_create ''a'' (png ''a.png'' ''xx'') 3 (remove_file ''a'' state_a))) = ([], [], [], 0)"
  using removed_entry_returned_once [of state_a "''a''" cached_a 0 cached_a "png ''a.png'' ''xx''" 3]
    run_a_state
  by (simp add: state_a_def cached_a_def run_defs dict_defs)

subsection \<open>The job handle after publication\<close>

lemma run_a_admitted:
  "run demo_ext [GetOrCreate ''a'' (png ''a.png'' ''xx'') 1, JobStart 0, JobPrepare 0, JobEvict 0]
     (OptimizedFileCache 1 2) = Some state_a_admitted"
  by (simp add: state_a_admitted_def cached_a_def run_defs dict_defs)

lemma dict_get_set_same: "dict_get (dict_set d k v) k = Some v"
  by (simp add: dict_defs AList.update_conv')

lemma dict_get_set_other: "k' \<noteq> k \<Longrightarrow> dict_get (dict_set d k v) k' = dict_get d k'"
  by (simp add: dict_defs AList.update_conv')

lemma set_state_fields [simp]:
  "cache (set_state j st s) = cache s"
  "access_times (set_state j st s) = access_times s"
  "processing_queue (set_state j st s) = processing_queue s"
  "current_memory_usage (set_state j st s) = current_memory_usage s"
  "max_memory_bytes (set_state j st s) = max_memory_bytes s"
  "max_workers (set_state j st s) = max_workers s"
  by (simp_all add: set_state_def)

lemma evict_loop_keeps [simp]:
  "processing_queue (evict_loop xs n s) = processing_queue s"
  "executor (evict_loop xs n s) = executor s"
  "max_memory_bytes (evict_loop xs n s) = max_memory_bytes s"
  "max_workers (evict_loop xs n s) = max_workers s"
  by (induction xs n s rule: evict_loop.induct; simp split: option.splits)+

lemma evict_lru_keeps [simp]:
  "processing_queue (evict_lru_if_needed n s) = processing_queue s"
  "executor (evict_lru_if_needed n s) = executor s"
  "max_memory_bytes (evict_lru_if_needed n s) = max_memory_bytes s"
  "max_workers (evict_lru_if_needed n s) = max_workers s"
  by (simp_all add: evict_lru_if_needed_def)

lemma dict_get_pop_other: "k' \<noteq> k \<Longrightarrow> dict_get (dict_pop d k) k' = dict_get d k'"
  by (simp add: dict_defs AList.delete_conv')

lemma dict_get_append_keep: "dict_get d k = Some v \<Longrightarrow> dict_get (d @ [(k', v')]) k = Some v"
  by (simp add: dict_get_def map_add_Some_iff)

lemma get_or_create_queue:
  "processing_queue (snd (get_or_create fid fo now s)) =
     (case dict_get (cache s) fid of
        Some cached \<Rightarrow> processing_queue s
      | None \<Rightarrow>
          (case dict_get (processing_queue s) fid of
             Some j \<Rightarrow>
               if future_done (executor s ! j) then dict_pop (processing_queue s) fid
               else processing_queue s
           | None \<Rightarrow> processing_queue s @ [(fid, length (executor s))]))"
  by (simp add: get_or_create_def submit_def dict_set_absent split: option.splits)

lemma job_step_queue:
  assumes "step ext ev s = Some s'" and "ev \<noteq> Clear" and "\<And>fid fo now. ev \<noteq> GetOrCreate fid fo now"
  shows "processing_queue s' = processing_queue s"
proof (cases ev)
  case (GetOrCreate fid fo now)
  then show ?thesis using assms(3) by simp
next
  case (RemoveFile fid)
  then show ?thesis
    using assms(1) by (auto simp: remove_file_def split: option.splits)
next
  case Clear
  then show ?thesis using assms(2) by simp
next
  case (JobStart j)
  then show ?thesis
    using assms(1) by (auto split: if_splits)
next
  case (JobPrepare j)
  then show ?thesis
    using assms(1) by (auto split: option.splits future_state.splits job_pc.splits)
next
  case (JobEvict j)
  then show ?thesis
    using assms(1) by (auto split: option.splits future_state.splits job_pc.splits)
next
  case (JobPublish j now)
  then show ?thesis
    using assms(1) by (auto simp: publish_def split: option.splits future_state.splits job_pc.splits)
next
  case (JobReturn j)
  then show ?thesis
    using assms(1) by (auto split: option.splits future_state.splits job_pc.splits)
qed

lemma handle_step:
  assumes "step ext ev s = Some s'"
    and "dict_get (processing_queue s) fid = Some j"
    and "dict_get (processing_queue s') fid \<noteq> Some j"
  shows "ev = Clear
         \<or> (\<exists>fo now. ev = GetOrCreate fid fo now \<and> dict_get (cache s) fid = None
               \<and> future_done (executor s ! j))"
proof (cases ev)
  case (GetOrCreate fid' fo now)
  then have s': "s' = snd (get_or_create fid' fo now s)"
    using assms(1) by simp
  show ?thesis
  proof (cases "fid' = fid")
    case True
    then show ?thesis
      using assms(2,3) GetOrCreate unfolding s' get_or_create_queue
      by (auto split: option.splits if_splits)
  next
    case False
    then have "dict_get (processing_queue s') fid = Some j"
      using assms(2) unfolding s' get_or_create_queue
      by (auto simp: dict_get_pop_other dict_get_append_keep split: option.splits)
    then show ?thesis
      using assms(3) by simp
  qed
next
  case Clear
  then show ?thesis by simp
qed (use assms job_step_queue [OF assms(1)] in auto)

lemma handle_run:
  assumes "run ext evs s = Some s'"
    and "dict_get (processing_queue s) fid = Some j"
    and "Clear \<notin> set evs"
    and "\<And>fo now. GetOrCreate fid fo now \<notin> set evs"
  shows "dict_get (processing_queue s') fid = Some j"
  using assms
proof (induction evs arbitrary: s)
  case Nil
  then show ?case by simp
next
  case (Cons ev evs)
  from Cons.prems(1) obtain s1 where s1: "step ext ev s = Some s1" and r: "run ext evs s1 = Some s'"
    by (auto split: option.splits)
  have "dict_get (processing_queue s1) fid = Some j"
    using handle_step [OF s1 Cons.prems(2)] Cons.prems(3,4) by auto
  then show ?case
    using Cons.IH [OF r] Cons.prems(3,4) by simp
qed

text \<open>
  C6, as the code has it. \<open>processing_queue\<close> changes in \<^verbatim>\<open>get_or_create\<close> and in \<^verbatim>\<open>clear\<close>
  only. \<^verbatim>\<open>get_or_create\<close> on an identifier that is cached leaves it as it is; on one that is
  not cached it removes the handle if the recorded future is done, leaves
  \<open>processing_queue\<close> as it is if the future is not done, and appends the handle of a new
  future if none is recorded. \<^verbatim>\<open>clear\<close> empties it. No step of a job (starting,
  processing, evicting, inserting, returning) and no \<^verbatim>\<open>remove_file\<close> touches it. So a
  handle is removed only by \<^verbatim>\<open>clear\<close> and by a \<^verbatim>\<open>get_or_create\<close> on its identifier that finds
  the identifier not cached and the future done. The insertion puts the entry into
  \<open>cache\<close> under the job's identifier and the return of the job changes neither
  dictionary, so an identifier recorded in \<open>processing_queue\<close> when its job inserts is in
  both dictionaries then, and it keeps its handle over any sequence of operations that
  contains neither \<^verbatim>\<open>clear\<close> nor a \<^verbatim>\<open>get_or_create\<close> on it.
\<close>

theorem handle_removed_only_by_lookup_or_clear:
  "(step ext ev s = Some s' \<longrightarrow>
      (\<forall>fid fo now. ev = GetOrCreate fid fo now \<longrightarrow>
          (\<forall>cached. dict_get (cache s) fid = Some cached \<longrightarrow> processing_queue s' = processing_queue s)
        \<and> (dict_get (cache s) fid = None \<longrightarrow>
             (\<forall>j. dict_get (processing_queue s) fid = Some j \<longrightarrow>
                 (future_done (executor s ! j) \<longrightarrow> processing_queue s' = dict_pop (processing_queue s) fid)
               \<and> (\<not> future_done (executor s ! j) \<longrightarrow> processing_queue s' = processing_queue s))
           \<and> (dict_get (processing_queue s) fid = None \<longrightarrow>
                processing_queue s' = processing_queue s @ [(fid, length (executor s))])))
    \<and> (ev = Clear \<longrightarrow> processing_queue s' = [])
    \<and> ((\<forall>fid fo now. ev \<noteq> GetOrCreate fid fo now) \<longrightarrow> ev \<noteq> Clear
          \<longrightarrow> processing_queue s' = processing_queue s)
    \<and> (\<forall>fid j. dict_get (processing_queue s) fid = Some j
          \<longrightarrow> dict_get (processing_queue s') fid \<noteq> Some j
          \<longrightarrow> ev = Clear
              \<or> (\<exists>fo now. ev = GetOrCreate fid fo now \<and> dict_get (cache s) fid = None
                    \<and> future_done (executor s ! j)))
    \<and> (\<forall>j now cached. ev = JobPublish j now \<longrightarrow> job_state s j = Some (Running (Admitted cached))
          \<longrightarrow> dict_get (cache s') (fut_file_id (executor s ! j)) = Some cached
            \<and> processing_queue s' = processing_queue s
            \<and> job_state s' j = Some (Running (Returning cached)))
    \<and> (\<forall>j cached. ev = JobReturn j \<longrightarrow> job_state s j = Some (Running (Returning cached))
          \<longrightarrow> cache s' = cache s \<and> processing_queue s' = processing_queue s
            \<and> job_state s' j = Some (Finished cached)))
   \<and> (run ext evs t = Some t' \<longrightarrow> dict_get (processing_queue t) fid' = Some j' \<longrightarrow> Clear \<notin> set evs
        \<longrightarrow> (\<forall>fo now. GetOrCreate fid' fo now \<notin> set evs)
        \<longrightarrow> dict_get (processing_queue t') fid' = Some j')"
proof (intro conjI impI)
  assume st: "step ext ev s = Some s'"
  show "\<forall>fid fo now. ev = GetOrCreate fid fo now \<longrightarrow>
          (\<forall>cached. dict_get (cache s) fid = Some cached \<longrightarrow> processing_queue s' = processing_queue s)
        \<and> (dict_get (cache s) fid = None \<longrightarrow>
             (\<forall>j. dict_get (processing_queue s) fid = Some j \<longrightarrow>
                 (future_done (executor s ! j) \<longrightarrow> processing_queue s' = dict_pop (processing_queue s) fid)
               \<and> (\<not> future_done (executor s ! j) \<longrightarrow> processing_queue s' = processing_queue s))
           \<and> (dict_get (processing_queue s) fid = None \<longrightarrow>
                processing_queue s' = processing_queue s @ [(fid, length (executor s))]))"
    using st by (auto simp: get_or_create_queue)
  show "ev = Clear \<Longrightarrow> processing_queue s' = []"
    using st by (auto simp: clear_def)
  show "processing_queue s' = processing_queue s"
    if "\<forall>fid fo now. ev \<noteq> GetOrCreate fid fo now" "ev \<noteq> Clear"
    using job_step_queue [OF st] that by simp
  show "\<forall>fid j. dict_get (processing_queue s) fid = Some j
          \<longrightarrow> dict_get (processing_queue s') fid \<noteq> Some j
          \<longrightarrow> ev = Clear
              \<or> (\<exists>fo now. ev = GetOrCreate fid fo now \<and> dict_get (cache s) fid = None
                    \<and> future_done (executor s ! j))"
    using handle_step [OF st] by blast
  show "\<forall>j now cached. ev = JobPublish j now \<longrightarrow> job_state s j = Some (Running (Admitted cached))
          \<longrightarrow> dict_get (cache s') (fut_file_id (executor s ! j)) = Some cached
            \<and> processing_queue s' = processing_queue s
            \<and> job_state s' j = Some (Running (Returning cached))"
    using st by (auto simp: publish_def dict_get_set_same job_state_def set_state_def split: if_splits)
  show "\<forall>j cached. ev = JobReturn j \<longrightarrow> job_state s j = Some (Running (Returning cached))
          \<longrightarrow> cache s' = cache s \<and> processing_queue s' = processing_queue s
            \<and> job_state s' j = Some (Finished cached)"
    using st by (auto simp: job_state_def set_state_def split: if_splits)
next
  assume "run ext evs t = Some t'" "dict_get (processing_queue t) fid' = Some j'" "Clear \<notin> set evs"
    "\<forall>fo now. GetOrCreate fid' fo now \<notin> set evs"
  then show "dict_get (processing_queue t') fid' = Some j'"
    using handle_run by blast
qed

theorem handle_removed_only_by_lookup_or_clear_witness:
  "step demo_ext (JobPublish 0 2) state_a_admitted = Some state_a_published
   \<and> job_state state_a_admitted 0 = Some (Running (Admitted cached_a))
   \<and> processing_queue state_a_published = [(''a'', 0)]
   \<and> dict_get (cache state_a_published) ''a'' = Some cached_a
   \<and> step demo_ext (GetOrCreate ''a'' (png ''a.png'' ''xx'') 3) state_a_published =
       Some (state_a_published\<lparr>access_times := [(''a'', 3)]\<rparr>)
   \<and> run demo_ext [JobPublish 0 2, JobReturn 0, GetOrCreate ''b'' (png ''b.png'' ''xx'') 3, RemoveFile ''a'']
       state_a_admitted =
       Some (state_a\<lparr>cache := [], access_times := [], current_memory_usage := 0,
                    processing_queue := [(''a'', 0), (''b'', 1)],
                    executor := executor state_a @
                      [\<lparr>fut_file_id = ''b'', fut_file_obj = png ''b.png'' ''xx'', fut_state = Pending\<rparr>]\<rparr>)
   \<and> dict_get (processing_queue (state_a\<lparr>cache := [], access_times := [], current_memory_usage := 0,
                    processing_queue := [(''a'', 0), (''b'', 1)],
                    executor := executor state_a @
                      [\<lparr>fut_file_id = ''b'', fut_file_obj = png ''b.png'' ''xx'', fut_state = Pending\<rparr>]\<rparr>)) ''a'' =
       Some 0"
proof -
  have p: "step demo_ext (JobPublish 0 2) state_a_admitted = Some state_a_published"
    by (simp add: state_a_admitted_def state_a_published_def job_state_def set_state_def publish_def
        dict_defs cached_a_def CachedFile_def)
  have a: "job_state state_a_admitted 0 = Some (Running (Admitted cached_a))"
    by (simp add: state_a_admitted_def job_state_def)
  have g: "step demo_ext (GetOrCreate ''a'' (png ''a.png'' ''xx'') 3) state_a_published =
       Some (state_a_published\<lparr>access_times := [(''a'', 3)]\<rparr>)"
    by (simp add: state_a_published_def get_or_create_def dict_defs)
  have c: "dict_get (cache state_a_published) ''a'' = Some cached_a"
    by (simp add: state_a_published_def dict_get_def)
  have r: "run demo_ext [JobPublish 0 2, JobReturn 0, GetOrCreate ''b'' (png ''b.png'' ''xx'') 3, RemoveFile ''a'']
       state_a_admitted =
       Some (state_a\<lparr>cache := [], access_times := [], current_memory_usage := 0,
                    processing_queue := [(''a'', 0), (''b'', 1)],
                    executor := executor state_a @
                      [\<lparr>fut_file_id = ''b'', fut_file_obj = png ''b.png'' ''xx'', fut_state = Pending\<rparr>]\<rparr>)"
    by (simp add: state_a_admitted_def state_a_def cached_a_def run_defs dict_defs)
  have q: "dict_get (processing_queue state_a_admitted) ''a'' = Some 0"
    by (simp add: state_a_admitted_def dict_get_def)
  have n: "Clear \<notin> set [JobPublish 0 2, JobReturn 0, GetOrCreate ''b'' (png ''b.png'' ''xx'') 3, RemoveFile ''a'']"
    "\<forall>fo now. GetOrCreate ''a'' fo now
       \<notin> set [JobPublish 0 2, JobReturn 0, GetOrCreate ''b'' (png ''b.png'' ''xx'') 3, RemoveFile ''a'']"
    by simp_all
  note one = handle_removed_only_by_lookup_or_clear [where ext = demo_ext and ev = "JobPublish 0 2"
      and s = state_a_admitted and s' = state_a_published
      and evs = "[JobPublish 0 2, JobReturn 0, GetOrCreate ''b'' (png ''b.png'' ''xx'') 3, RemoveFile ''a'']"
      and t = state_a_admitted
      and t' = "state_a\<lparr>cache := [], access_times := [], current_memory_usage := 0,
                    processing_queue := [(''a'', 0), (''b'', 1)],
                    executor := executor state_a @
                      [\<lparr>fut_file_id = ''b'', fut_file_obj = png ''b.png'' ''xx'', fut_state = Pending\<rparr>]\<rparr>"
      and fid' = "''a''" and j' = 0]
  note two = handle_removed_only_by_lookup_or_clear [where ext = demo_ext
      and ev = "GetOrCreate ''a'' (png ''a.png'' ''xx'') 3"
      and s = state_a_published and s' = "state_a_published\<lparr>access_times := [(''a'', 3)]\<rparr>"
      and evs = "[]" and t = state_a_admitted and t' = state_a_admitted and fid' = "''a''" and j' = 0]
  from one p a have "processing_queue state_a_published = processing_queue state_a_admitted"
    by blast
  then have k: "processing_queue state_a_published = [(''a'', 0)]"
    by (simp add: state_a_admitted_def)
  from one r q n have
    "dict_get (processing_queue (state_a\<lparr>cache := [], access_times := [], current_memory_usage := 0,
                    processing_queue := [(''a'', 0), (''b'', 1)],
                    executor := executor state_a @
                      [\<lparr>fut_file_id = ''b'', fut_file_obj = png ''b.png'' ''xx'', fut_state = Pending\<rparr>]\<rparr>)) ''a'' =
       Some 0"
    by blast
  moreover from two g c have
    "processing_queue (state_a_published\<lparr>access_times := [(''a'', 3)]\<rparr>) = processing_queue state_a_published"
    by blast
  ultimately show ?thesis
    using p a g c r k by simp
qed

theorem handle_kept_after_publication:
  "run demo_ext run_a (OptimizedFileCache 1 2) = Some state_a
   \<and> dict_get (cache state_a) ''a'' = Some cached_a
   \<and> dict_get (processing_queue state_a) ''a'' = Some 0
   \<and> fut_state (executor state_a ! 0) = Finished cached_a"
  using run_a_state by (simp add: state_a_def dict_defs)

subsection \<open>Clearing while a job runs\<close>

lemma clear_executor_nth:
  assumes "j < length (executor s)"
  shows "executor (clear s) ! j =
           (if j \<in> set (map snd (processing_queue s)) then cancel (executor s ! j) else executor s ! j)"
  using assms by (simp add: clear_def nth_enumerate_eq)

lemma clear_executor_length [simp]: "length (executor (clear s)) = length (executor s)"
  by (simp add: clear_def)

lemma clear_fields [simp]:
  "cache (clear s) = []" "access_times (clear s) = []" "processing_queue (clear s) = []"
  "current_memory_usage (clear s) = 0" "max_memory_bytes (clear s) = max_memory_bytes s"
  "max_workers (clear s) = max_workers s"
  by (simp_all add: clear_def)

lemma clear_job_state:
  "job_state (clear s) j =
     (case job_state s j of
        Some Pending \<Rightarrow> if j \<in> set (map snd (processing_queue s)) then Some Cancelled else Some Pending
      | st \<Rightarrow> st)"
  by (auto simp: job_state_def clear_executor_nth cancel_def split: future_state.splits)

lemma clear_fut_file_id:
  "j < length (executor s) \<Longrightarrow> fut_file_id (executor (clear s) ! j) = fut_file_id (executor s ! j)"
  by (simp add: clear_executor_nth cancel_def)

lemma job_state_length: "job_state s j = Some st \<Longrightarrow> j < length (executor s)"
  by (simp add: job_state_def split: if_splits)

lemma job_state_nth: "job_state s j = Some st \<Longrightarrow> fut_state (executor s ! j) = st"
  by (simp add: job_state_def split: if_splits)

lemma set_state_other:
  assumes "i \<noteq> j"
  shows "job_state (set_state i st s) j = job_state s j"
    and "executor (set_state i st s) ! j = executor s ! j"
  using assms by (simp_all add: job_state_def set_state_def)

lemma get_or_create_executor:
  assumes "j < length (executor s)"
  shows "j < length (executor (snd (get_or_create fid fo now s)))"
    and "executor (snd (get_or_create fid fo now s)) ! j = executor s ! j"
  using assms by (simp_all add: get_or_create_def submit_def nth_append split: option.splits)

text \<open>
  A future that is not waiting for a worker is changed by the steps of its own job only.
\<close>

lemma step_keeps_job:
  assumes "step ext ev s = Some s'" and "job_of ev \<noteq> Some j"
    and "job_state s j = Some st" and "st \<noteq> Pending"
  shows "job_state s' j = Some st
         \<and> fut_file_id (executor s' ! j) = fut_file_id (executor s ! j)
         \<and> fut_file_obj (executor s' ! j) = fut_file_obj (executor s ! j)"
proof -
  have j: "j < length (executor s)" and f: "fut_state (executor s ! j) = st"
    using assms(3) by (simp_all add: job_state_length job_state_nth)
  have k: "j < length (executor s') \<and> executor s' ! j = executor s ! j"
  proof (cases ev)
    case (GetOrCreate fid fo now)
    then have "s' = snd (get_or_create fid fo now s)"
      using assms(1) by simp
    then show ?thesis
      using get_or_create_executor [OF j] by simp
  next
    case (RemoveFile fid)
    then have "s' = remove_file fid s"
      using assms(1) by simp
    then show ?thesis
      using j by (simp add: remove_file_def split: option.splits)
  next
    case Clear
    then have "s' = clear s"
      using assms(1) by simp
    then show ?thesis
      using j f assms(4) by (simp add: clear_executor_nth cancel_def)
  next
    case (JobStart i)
    then show ?thesis
      using assms(1,2) j by (auto simp: set_state_def split: if_splits)
  next
    case (JobPrepare i)
    then show ?thesis
      using assms(1,2) j
      by (auto simp: set_state_def split: option.splits future_state.splits job_pc.splits)
  next
    case (JobEvict i)
    then show ?thesis
      using assms(1,2) j
      by (auto simp: set_state_def split: option.splits future_state.splits job_pc.splits)
  next
    case (JobPublish i now)
    then show ?thesis
      using assms(1,2) j
      by (auto simp: set_state_def publish_def split: option.splits future_state.splits job_pc.splits)
  next
    case (JobReturn i)
    then show ?thesis
      using assms(1,2) j
      by (auto simp: set_state_def split: option.splits future_state.splits job_pc.splits)
  qed
  then show ?thesis
    using f by (simp add: job_state_def)
qed

lemma run_keeps_job:
  assumes "run ext evs s = Some t" and "\<forall>ev\<in>set evs. job_of ev \<noteq> Some j"
    and "job_state s j = Some st" and "st \<noteq> Pending"
  shows "job_state t j = Some st
         \<and> fut_file_id (executor t ! j) = fut_file_id (executor s ! j)
         \<and> fut_file_obj (executor t ! j) = fut_file_obj (executor s ! j)"
  using assms(1,2,3)
proof (induction evs arbitrary: s)
  case Nil
  then show ?case by simp
next
  case (Cons ev evs)
  from Cons.prems(1) obtain s1 where s1: "step ext ev s = Some s1" and r: "run ext evs s1 = Some t"
    by (auto split: option.splits)
  have k: "job_state s1 j = Some st
         \<and> fut_file_id (executor s1 ! j) = fut_file_id (executor s ! j)
         \<and> fut_file_obj (executor s1 ! j) = fut_file_obj (executor s ! j)"
    using step_keeps_job [OF s1 _ Cons.prems(3) assms(4)] Cons.prems(2) by simp
  then show ?case
    using Cons.IH [OF r] Cons.prems(2) by simp
qed

text \<open>A cancelled future is never run: no step of its job is possible.\<close>

lemma cancelled_no_step:
  assumes "job_state s j = Some Cancelled" and "job_of ev = Some j"
  shows "step ext ev s = None"
  using assms by (cases ev) (auto simp: may_start_def job_state_def split: if_splits)

lemma cancelled_run:
  assumes "run ext evs s = Some t" and "job_state s j = Some Cancelled"
  shows "job_state t j = Some Cancelled \<and> (\<forall>ev\<in>set evs. job_of ev \<noteq> Some j)"
  using assms
proof (induction evs arbitrary: s)
  case Nil
  then show ?case by simp
next
  case (Cons ev evs)
  from Cons.prems(1) obtain s1 where s1: "step ext ev s = Some s1" and r: "run ext evs s1 = Some t"
    by (auto split: option.splits)
  have n: "job_of ev \<noteq> Some j"
    using cancelled_no_step [OF Cons.prems(2), of ev ext] s1 by auto
  have "job_state s1 j = Some Cancelled"
    using step_keeps_job [OF s1 n Cons.prems(2)] by simp
  then show ?case
    using Cons.IH [OF r] n by simp
qed

lemma evict_cleared: "evict_lru_if_needed needed_bytes (clear s) = clear s"
  by (simp add: evict_lru_if_needed_def)

text \<open>
  The rest of a running job, in any state: the insertion, the eviction before it and the
  processing before that are possible whatever \<open>processing_queue\<close> holds.
\<close>

lemma publish_any:
  assumes "job_state t j = Some (Running (Admitted cached))"
  shows "\<exists>t'. step ext (JobPublish j now) t = Some t'
           \<and> cache t' = dict_set (cache t) (fut_file_id (executor t ! j)) cached
           \<and> current_memory_usage t' = current_memory_usage t + memory_usage cached
           \<and> processing_queue t' = processing_queue t"
  using assms by (simp add: publish_def)

lemma evict_publish_any:
  assumes "job_state t j = Some (Running (Processed cached))"
  shows "\<exists>t'. run ext [JobEvict j, JobPublish j now] t = Some t'
           \<and> cache t' =
               dict_set (cache (evict_lru_if_needed (memory_usage cached) t)) (fut_file_id (executor t ! j)) cached
           \<and> current_memory_usage t' =
               current_memory_usage (evict_lru_if_needed (memory_usage cached) t) + memory_usage cached
           \<and> processing_queue t' = processing_queue t"
proof -
  let ?u = "set_state j (Running (Admitted cached)) (evict_lru_if_needed (memory_usage cached) t)"
  have j: "j < length (executor t)"
    using assms by (rule job_state_length)
  have e: "step ext (JobEvict j) t = Some ?u"
    using assms by simp
  have u: "job_state ?u j = Some (Running (Admitted cached))"
    using j by (simp add: job_state_def set_state_def)
  have i: "fut_file_id (executor ?u ! j) = fut_file_id (executor t ! j)"
    using j by (simp add: set_state_def)
  from publish_any [OF u, of ext now] obtain t' where
    "step ext (JobPublish j now) ?u = Some t'"
    "cache t' = dict_set (cache ?u) (fut_file_id (executor ?u ! j)) cached"
    "current_memory_usage t' = current_memory_usage ?u + memory_usage cached"
    "processing_queue t' = processing_queue ?u"
    by blast
  then show ?thesis
    using e i by simp
qed

lemma evict_loop_set_state:
  "evict_loop xs n (set_state j st s) = set_state j st (evict_loop xs n s)"
proof (induction xs n s rule: evict_loop.induct)
  case (1 n s)
  then show ?case by simp
next
  case (2 fid t sorted_files n s)
  show ?case
  proof (cases "current_memory_usage s + n \<le> max_memory_bytes s")
    case True
    then show ?thesis by simp
  next
    case False
    show ?thesis
    proof (cases "dict_get (cache s) fid")
      case None
      then show ?thesis using False 2(1) by simp
    next
      case (Some c)
      have "set_state j st s\<lparr>cache := dict_pop (cache s) fid,
                     access_times := dict_pop (access_times s) fid,
                     current_memory_usage := current_memory_usage s - memory_usage c\<rparr>
          = set_state j st (s\<lparr>cache := dict_pop (cache s) fid,
                     access_times := dict_pop (access_times s) fid,
                     current_memory_usage := current_memory_usage s - memory_usage c\<rparr>)"
        by (simp add: set_state_def)
      then show ?thesis using False Some 2(2) by simp
    qed
  qed
qed

lemma prepare_evict_publish_any:
  assumes "job_state t j = Some (Running Started)"
    and "process_prepare ext (fut_file_id (executor t ! j)) (fut_file_obj (executor t ! j)) t = Processed cached"
  shows "\<exists>t'. run ext [JobPrepare j, JobEvict j, JobPublish j now] t = Some t'
           \<and> cache t' =
               dict_set (cache (evict_lru_if_needed (memory_usage cached) t)) (fut_file_id (executor t ! j)) cached
           \<and> current_memory_usage t' =
               current_memory_usage (evict_lru_if_needed (memory_usage cached) t) + memory_usage cached
           \<and> processing_queue t' = processing_queue t"
proof -
  let ?u = "set_state j (Running (Processed cached)) t"
  have j: "j < length (executor t)"
    using assms(1) by (rule job_state_length)
  have p: "step ext (JobPrepare j) t = Some ?u"
    using assms by simp
  have u: "job_state ?u j = Some (Running (Processed cached))"
    using j by (simp add: job_state_def set_state_def)
  have i: "fut_file_id (executor ?u ! j) = fut_file_id (executor t ! j)"
    using j by (simp add: set_state_def)
  have v: "evict_lru_if_needed n ?u = set_state j (Running (Processed cached)) (evict_lru_if_needed n t)" for n
    by (simp add: evict_lru_if_needed_def evict_loop_set_state)
  from evict_publish_any [OF u, of ext now] obtain t' where
    "run ext [JobEvict j, JobPublish j now] ?u = Some t'"
    "cache t' = dict_set (cache (evict_lru_if_needed (memory_usage cached) ?u)) (fut_file_id (executor ?u ! j)) cached"
    "current_memory_usage t' = current_memory_usage (evict_lru_if_needed (memory_usage cached) ?u) + memory_usage cached"
    "processing_queue t' = processing_queue ?u"
    by blast
  then show ?thesis
    using p i v by simp
qed

text \<open>
  C7, as the code has it. \<^verbatim>\<open>clear\<close> empties \<open>cache\<close>, \<open>access_times\<close> and
  \<open>processing_queue\<close>, sets \<open>current_memory_usage\<close> to 0 and cancels every recorded future
  that has not started. Whatever happens afterwards, such a future stays cancelled and no
  step of its job is taken. A job that is running is left as it is by \<^verbatim>\<open>clear\<close> and by
  every later operation other than its own steps. Its own steps make no check of
  \<open>processing_queue\<close>: in any state, a job that has been picked up and whose processing
  gives an entry, a job with its entry built, and a job about to insert go on to insert
  the entry into \<open>cache\<close> and add its cost. Run directly after \<^verbatim>\<open>clear\<close>, they leave the
  cache holding exactly that entry and its cost. Directly after \<^verbatim>\<open>clear\<close>, \<^verbatim>\<open>get_or_create\<close>
  on any identifier submits a new job and returns a placeholder.
\<close>

theorem clear_leaves_running_jobs:
  "snapshot (clear s) = ([], [], [], 0)
   \<and> (\<forall>j pc. job_state s j = Some (Running pc) \<longrightarrow> job_state (clear s) j = Some (Running pc))
   \<and> (\<forall>j. job_state s j = Some Pending \<longrightarrow> j \<in> set (map snd (processing_queue s))
         \<longrightarrow> job_state (clear s) j = Some Cancelled \<and> step ext (JobStart j) (clear s) = None)
   \<and> (\<forall>j evs t. job_state s j = Some Pending \<longrightarrow> j \<in> set (map snd (processing_queue s))
         \<longrightarrow> run ext evs (clear s) = Some t
         \<longrightarrow> job_state t j = Some Cancelled \<and> (\<forall>ev\<in>set evs. job_of ev \<noteq> Some j)
             \<and> step ext (JobStart j) t = None)
   \<and> (\<forall>j pc evs t. job_state s j = Some (Running pc) \<longrightarrow> run ext evs (clear s) = Some t
         \<longrightarrow> (\<forall>ev\<in>set evs. job_of ev \<noteq> Some j)
         \<longrightarrow> job_state t j = Some (Running pc)
             \<and> fut_file_id (executor t ! j) = fut_file_id (executor s ! j)
             \<and> fut_file_obj (executor t ! j) = fut_file_obj (executor s ! j))
   \<and> (\<forall>t j now cached. job_state t j = Some (Running (Admitted cached))
         \<longrightarrow> (\<exists>t'. step ext (JobPublish j now) t = Some t'
                \<and> cache t' = dict_set (cache t) (fut_file_id (executor t ! j)) cached
                \<and> current_memory_usage t' = current_memory_usage t + memory_usage cached
                \<and> processing_queue t' = processing_queue t))
   \<and> (\<forall>t j now cached. job_state t j = Some (Running (Processed cached))
         \<longrightarrow> (\<exists>t'. run ext [JobEvict j, JobPublish j now] t = Some t'
                \<and> cache t' =
                    dict_set (cache (evict_lru_if_needed (memory_usage cached) t))
                      (fut_file_id (executor t ! j)) cached
                \<and> current_memory_usage t' =
                    current_memory_usage (evict_lru_if_needed (memory_usage cached) t) + memory_usage cached
                \<and> processing_queue t' = processing_queue t))
   \<and> (\<forall>t j now cached. job_state t j = Some (Running Started)
         \<longrightarrow> process_prepare ext (fut_file_id (executor t ! j)) (fut_file_obj (executor t ! j)) t =
               Processed cached
         \<longrightarrow> (\<exists>t'. run ext [JobPrepare j, JobEvict j, JobPublish j now] t = Some t'
                \<and> cache t' =
                    dict_set (cache (evict_lru_if_needed (memory_usage cached) t))
                      (fut_file_id (executor t ! j)) cached
                \<and> current_memory_usage t' =
                    current_memory_usage (evict_lru_if_needed (memory_usage cached) t) + memory_usage cached
                \<and> processing_queue t' = processing_queue t))
   \<and> (\<forall>j now cached. job_state s j = Some (Running (Admitted cached))
         \<longrightarrow> (\<exists>s'. step ext (JobPublish j now) (clear s) = Some s'
                \<and> cache s' = [(fut_file_id (executor s ! j), cached)]
                \<and> current_memory_usage s' = memory_usage cached))
   \<and> (\<forall>j now cached. job_state s j = Some (Running (Processed cached))
         \<longrightarrow> (\<exists>s'. run ext [JobEvict j, JobPublish j now] (clear s) = Some s'
                \<and> cache s' = [(fut_file_id (executor s ! j), cached)]
                \<and> current_memory_usage s' = memory_usage cached))
   \<and> (\<forall>j now cached. job_state s j = Some (Running Started)
         \<longrightarrow> process_prepare ext (fut_file_id (executor s ! j)) (fut_file_obj (executor s ! j)) (clear s) =
               Processed cached
         \<longrightarrow> (\<exists>s'. run ext [JobPrepare j, JobEvict j, JobPublish j now] (clear s) = Some s'
                \<and> cache s' = [(fut_file_id (executor s ! j), cached)]
                \<and> current_memory_usage s' = memory_usage cached))
   \<and> get_or_create fid fo now (clear s) =
       (Inr (placeholder fid (fo_name fo)),
        (clear s)\<lparr>executor := executor (clear s) @ [\<lparr>fut_file_id = fid, fut_file_obj = fo, fut_state = Pending\<rparr>],
                  processing_queue := [(fid, length (executor s))]\<rparr>)"
proof -
  have a: "snapshot (clear s) = ([], [], [], 0)"
    by (simp add: snapshot_def dict_keys_def)
  have b: "job_state (clear s) j = Some (Running pc)" if "job_state s j = Some (Running pc)" for j pc
    using that by (simp add: clear_job_state)
  have ids: "fut_file_id (executor (clear s) ! j) = fut_file_id (executor s ! j)
             \<and> fut_file_obj (executor (clear s) ! j) = fut_file_obj (executor s ! j)"
    if "job_state s j = Some st" for j st
    using job_state_length [OF that] by (simp add: clear_executor_nth cancel_def)
  have c0: "job_state (clear s) j = Some Cancelled"
    if "job_state s j = Some Pending" "j \<in> set (map snd (processing_queue s))" for j
    using that by (simp add: clear_job_state)
  have c: "job_state (clear s) j = Some Cancelled \<and> step ext (JobStart j) (clear s) = None"
    if "job_state s j = Some Pending" "j \<in> set (map snd (processing_queue s))" for j
    using c0 [OF that] cancelled_no_step [of "clear s" j "JobStart j" ext] by simp
  have c': "job_state t j = Some Cancelled \<and> (\<forall>ev\<in>set evs. job_of ev \<noteq> Some j)
             \<and> step ext (JobStart j) t = None"
    if "job_state s j = Some Pending" "j \<in> set (map snd (processing_queue s))"
      "run ext evs (clear s) = Some t" for j evs t
  proof -
    have k: "job_state t j = Some Cancelled \<and> (\<forall>ev\<in>set evs. job_of ev \<noteq> Some j)"
      using cancelled_run [OF that(3) c0 [OF that(1,2)]] .
    then show ?thesis
      using cancelled_no_step [of t j "JobStart j" ext] by simp
  qed
  have r: "job_state t j = Some (Running pc)
             \<and> fut_file_id (executor t ! j) = fut_file_id (executor s ! j)
             \<and> fut_file_obj (executor t ! j) = fut_file_obj (executor s ! j)"
    if "job_state s j = Some (Running pc)" "run ext evs (clear s) = Some t"
      "\<forall>ev\<in>set evs. job_of ev \<noteq> Some j" for j pc evs t
    using run_keeps_job [OF that(2,3) b [OF that(1)]] ids [OF that(1)] by simp
  have p1: "\<exists>t'. step ext (JobPublish j now) t = Some t'
                \<and> cache t' = dict_set (cache t) (fut_file_id (executor t ! j)) cached
                \<and> current_memory_usage t' = current_memory_usage t + memory_usage cached
                \<and> processing_queue t' = processing_queue t"
    if "job_state t j = Some (Running (Admitted cached))" for t j now cached
    using that by (rule publish_any)
  have p2: "\<exists>t'. run ext [JobEvict j, JobPublish j now] t = Some t'
                \<and> cache t' =
                    dict_set (cache (evict_lru_if_needed (memory_usage cached) t))
                      (fut_file_id (executor t ! j)) cached
                \<and> current_memory_usage t' =
                    current_memory_usage (evict_lru_if_needed (memory_usage cached) t) + memory_usage cached
                \<and> processing_queue t' = processing_queue t"
    if "job_state t j = Some (Running (Processed cached))" for t j now cached
    using that by (rule evict_publish_any)
  have p3: "\<exists>t'. run ext [JobPrepare j, JobEvict j, JobPublish j now] t = Some t'
                \<and> cache t' =
                    dict_set (cache (evict_lru_if_needed (memory_usage cached) t))
                      (fut_file_id (executor t ! j)) cached
                \<and> current_memory_usage t' =
                    current_memory_usage (evict_lru_if_needed (memory_usage cached) t) + memory_usage cached
                \<and> processing_queue t' = processing_queue t"
    if "job_state t j = Some (Running Started)"
      "process_prepare ext (fut_file_id (executor t ! j)) (fut_file_obj (executor t ! j)) t = Processed cached"
    for t j now cached
    using that by (rule prepare_evict_publish_any)
  have d1: "\<exists>s'. step ext (JobPublish j now) (clear s) = Some s'
                \<and> cache s' = [(fut_file_id (executor s ! j), cached)]
                \<and> current_memory_usage s' = memory_usage cached"
    if "job_state s j = Some (Running (Admitted cached))" for j now cached
  proof -
    from publish_any [OF b [OF that], of ext now] obtain s' where
      "step ext (JobPublish j now) (clear s) = Some s'"
      "cache s' = dict_set (cache (clear s)) (fut_file_id (executor (clear s) ! j)) cached"
      "current_memory_usage s' = current_memory_usage (clear s) + memory_usage cached"
      by blast
    moreover from this have "cache s' = [(fut_file_id (executor s ! j), cached)]"
      "current_memory_usage s' = memory_usage cached"
      using ids [OF that] by (simp_all add: dict_set_def)
    ultimately show ?thesis by blast
  qed
  have d2: "\<exists>s'. run ext [JobEvict j, JobPublish j now] (clear s) = Some s'
                \<and> cache s' = [(fut_file_id (executor s ! j), cached)]
                \<and> current_memory_usage s' = memory_usage cached"
    if "job_state s j = Some (Running (Processed cached))" for j now cached
  proof -
    from evict_publish_any [OF b [OF that], of ext now] obtain s' where
      "run ext [JobEvict j, JobPublish j now] (clear s) = Some s'"
      "cache s' = dict_set (cache (evict_lru_if_needed (memory_usage cached) (clear s)))
                    (fut_file_id (executor (clear s) ! j)) cached"
      "current_memory_usage s' =
         current_memory_usage (evict_lru_if_needed (memory_usage cached) (clear s)) + memory_usage cached"
      by blast
    moreover from this have "cache s' = [(fut_file_id (executor s ! j), cached)]"
      "current_memory_usage s' = memory_usage cached"
      using ids [OF that] by (simp_all add: dict_set_def evict_cleared)
    ultimately show ?thesis by blast
  qed
  have d3: "\<exists>s'. run ext [JobPrepare j, JobEvict j, JobPublish j now] (clear s) = Some s'
                \<and> cache s' = [(fut_file_id (executor s ! j), cached)]
                \<and> current_memory_usage s' = memory_usage cached"
    if "job_state s j = Some (Running Started)"
      "process_prepare ext (fut_file_id (executor s ! j)) (fut_file_obj (executor s ! j)) (clear s) =
         Processed cached"
    for j now cached
  proof -
    have "process_prepare ext (fut_file_id (executor (clear s) ! j)) (fut_file_obj (executor (clear s) ! j))
            (clear s) = Processed cached"
      using that(2) ids [OF that(1)] by simp
    from prepare_evict_publish_any [OF b [OF that(1)] this, of now] obtain s' where
      "run ext [JobPrepare j, JobEvict j, JobPublish j now] (clear s) = Some s'"
      "cache s' = dict_set (cache (evict_lru_if_needed (memory_usage cached) (clear s)))
                    (fut_file_id (executor (clear s) ! j)) cached"
      "current_memory_usage s' =
         current_memory_usage (evict_lru_if_needed (memory_usage cached) (clear s)) + memory_usage cached"
      by blast
    moreover from this have "cache s' = [(fut_file_id (executor s ! j), cached)]"
      "current_memory_usage s' = memory_usage cached"
      using ids [OF that(1)] by (simp_all add: dict_set_def evict_cleared)
    ultimately show ?thesis by blast
  qed
  have e: "get_or_create fid fo now (clear s) =
       (Inr (placeholder fid (fo_name fo)),
        (clear s)\<lparr>executor := executor (clear s) @ [\<lparr>fut_file_id = fid, fut_file_obj = fo, fut_state = Pending\<rparr>],
                  processing_queue := [(fid, length (executor s))]\<rparr>)"
    by (simp add: get_or_create_def submit_def dict_get_def dict_set_def)
  show ?thesis
    apply (intro conjI allI impI)
    subgoal by (rule a)
    subgoal by (rule b)
    subgoal using c by blast
    subgoal using c by blast
    subgoal using c' by blast
    subgoal using c' by blast
    subgoal using c' by blast
    subgoal using r by blast
    subgoal using r by blast
    subgoal using r by blast
    subgoal by (rule p1)
    subgoal by (rule p2)
    subgoal by (rule p3)
    subgoal by (rule d1)
    subgoal by (rule d2)
    subgoal by (rule d3)
    subgoal by (rule e)
    done
qed

lemma run_a_prefixes:
  "run demo_ext [GetOrCreate ''a'' (png ''a.png'' ''xx'') 1] (OptimizedFileCache 1 2) = Some state_a_pending"
  "run demo_ext [GetOrCreate ''a'' (png ''a.png'' ''xx'') 1, JobStart 0] (OptimizedFileCache 1 2) =
     Some state_a_started"
  by (simp_all add: state_a_pending_def state_a_started_def run_defs dict_defs)

theorem clear_leaves_running_jobs_witness:
  "job_state state_a_pending 0 = Some Pending
   \<and> 0 \<in> set (map snd (processing_queue state_a_pending))
   \<and> map_option (\<lambda>t. (job_states t, step demo_ext (JobStart 0) t))
        (run demo_ext [GetOrCreate ''a'' (png ''a.png'' ''xx'') 2, JobStart 1] (clear state_a_pending)) =
      Some ([Cancelled, Running Started], None)
   \<and> job_state state_a_started 0 = Some (Running Started)
   \<and> process_prepare demo_ext ''a'' (png ''a.png'' ''xx'') (clear state_a_started) = Processed cached_a
   \<and> (\<exists>s'. run demo_ext [JobPrepare 0, JobEvict 0, JobPublish 0 2] (clear state_a_started) = Some s'
         \<and> cache s' = [(''a'', cached_a)] \<and> current_memory_usage s' = 786432)
   \<and> job_state state_a_admitted 0 = Some (Running (Admitted cached_a))
   \<and> snapshot (clear state_a_admitted) = ([], [], [], 0)
   \<and> job_state (clear state_a_admitted) 0 = Some (Running (Admitted cached_a))
   \<and> map_option job_states
        (run demo_ext [GetOrCreate ''a'' (png ''a.png'' ''xx'') 3, RemoveFile ''a''] (clear state_a_admitted)) =
      Some [Running (Admitted cached_a), Pending]
   \<and> (\<exists>s'. step demo_ext (JobPublish 0 2) (clear state_a_admitted) = Some s'
         \<and> cache s' = [(''a'', cached_a)] \<and> current_memory_usage s' = 786432)"
proof -
  note pending = clear_leaves_running_jobs [where s = state_a_pending and ext = demo_ext
      and fid = "''a''" and fo = "png ''a.png'' ''xx''" and now = 3]
  note started = clear_leaves_running_jobs [where s = state_a_started and ext = demo_ext
      and fid = "''a''" and fo = "png ''a.png'' ''xx''" and now = 3]
  note admitted = clear_leaves_running_jobs [where s = state_a_admitted and ext = demo_ext
      and fid = "''a''" and fo = "png ''a.png'' ''xx''" and now = 3]
  let ?evs1 = "[GetOrCreate ''a'' (png ''a.png'' ''xx'') 2, JobStart 1]"
  let ?evs2 = "[GetOrCreate ''a'' (png ''a.png'' ''xx'') 3, RemoveFile ''a'']"
  have m: "memory_usage cached_a = 786432"
    by (simp add: cached_a_def CachedFile_def)
  have p: "job_state state_a_pending 0 = Some Pending"
    "0 \<in> set (map snd (processing_queue state_a_pending))"
    by (simp_all add: state_a_pending_def job_state_def)
  have "\<exists>t. run demo_ext ?evs1 (clear state_a_pending) = Some t
          \<and> job_states t = [Cancelled, Running Started]"
    by (simp add: state_a_pending_def job_states_def run_defs dict_defs nth_enumerate_eq)
  then obtain t1 where t1: "run demo_ext ?evs1 (clear state_a_pending) = Some t1"
    "job_states t1 = [Cancelled, Running Started]"
    by (elim exE conjE) (rule that)
  from pending [THEN conjunct2, THEN conjunct2, THEN conjunct2, THEN conjunct1, rule_format, OF p t1(1)]
  have "step demo_ext (JobStart 0) t1 = None"
    by simp
  with t1 have one: "map_option (\<lambda>t. (job_states t, step demo_ext (JobStart 0) t))
        (run demo_ext ?evs1 (clear state_a_pending)) = Some ([Cancelled, Running Started], None)"
    by simp
  have s: "job_state state_a_started 0 = Some (Running Started)"
    by (simp add: state_a_started_def job_state_def)
  have sid: "fut_file_id (executor state_a_started ! 0) = ''a''"
    "fut_file_obj (executor state_a_started ! 0) = png ''a.png'' ''xx''"
    by (simp_all add: state_a_started_def)
  have pp: "process_prepare demo_ext ''a'' (png ''a.png'' ''xx'') (clear state_a_started) = Processed cached_a"
    by (simp add: state_a_started_def cached_a_def run_defs dict_defs)
  then have pp': "process_prepare demo_ext (fut_file_id (executor state_a_started ! 0))
      (fut_file_obj (executor state_a_started ! 0)) (clear state_a_started) = Processed cached_a"
    by (simp only: sid)
  have
    "\<exists>s'. run demo_ext [JobPrepare 0, JobEvict 0, JobPublish 0 2] (clear state_a_started) = Some s'
         \<and> cache s' = [(fut_file_id (executor state_a_started ! 0), cached_a)]
         \<and> current_memory_usage s' = memory_usage cached_a"
    by (rule started [THEN conjunct2, THEN conjunct2, THEN conjunct2, THEN conjunct2, THEN conjunct2,
          THEN conjunct2, THEN conjunct2, THEN conjunct2, THEN conjunct2, THEN conjunct2, THEN conjunct1,
          rule_format, OF s pp'])
  then have two: "\<exists>s'. run demo_ext [JobPrepare 0, JobEvict 0, JobPublish 0 2] (clear state_a_started) = Some s'
         \<and> cache s' = [(''a'', cached_a)] \<and> current_memory_usage s' = 786432"
    by (simp only: sid m)
  have a: "job_state state_a_admitted 0 = Some (Running (Admitted cached_a))"
    by (simp add: state_a_admitted_def job_state_def)
  have aid: "fut_file_id (executor state_a_admitted ! 0) = ''a''"
    by (simp add: state_a_admitted_def)
  have three: "snapshot (clear state_a_admitted) = ([], [], [], 0)"
    by (rule admitted [THEN conjunct1])
  have four: "job_state (clear state_a_admitted) 0 = Some (Running (Admitted cached_a))"
    by (rule admitted [THEN conjunct2, THEN conjunct1, rule_format, OF a])
  have "\<exists>t. run demo_ext ?evs2 (clear state_a_admitted) = Some t
          \<and> map fut_state (drop 1 (executor t)) = [Pending] \<and> length (executor t) = 2"
    by (simp add: state_a_admitted_def run_defs dict_defs nth_enumerate_eq)
  then obtain t2 where t2: "run demo_ext ?evs2 (clear state_a_admitted) = Some t2"
    "map fut_state (drop 1 (executor t2)) = [Pending]" "length (executor t2) = 2"
    by (elim exE conjE) (rule that)
  have n: "job_of ev \<noteq> Some 0" if "ev \<in> set ?evs2" for ev
    using that by auto
  from admitted [THEN conjunct2, THEN conjunct2, THEN conjunct2, THEN conjunct2, THEN conjunct1,
      rule_format, OF a t2(1) n]
  have "job_state t2 0 = Some (Running (Admitted cached_a))"
    by simp
  then have "fut_state (executor t2 ! 0) = Running (Admitted cached_a)"
    by (rule job_state_nth)
  with t2(2,3) have "job_states t2 = [Running (Admitted cached_a), Pending]"
    by (cases "executor t2") (simp_all add: job_states_def)
  with t2(1) have five: "map_option job_states (run demo_ext ?evs2 (clear state_a_admitted)) =
      Some [Running (Admitted cached_a), Pending]"
    by simp
  have "\<exists>s'. step demo_ext (JobPublish 0 2) (clear state_a_admitted) = Some s'
         \<and> cache s' = [(fut_file_id (executor state_a_admitted ! 0), cached_a)]
         \<and> current_memory_usage s' = memory_usage cached_a"
    by (rule admitted [THEN conjunct2, THEN conjunct2, THEN conjunct2, THEN conjunct2, THEN conjunct2,
          THEN conjunct2, THEN conjunct2, THEN conjunct2, THEN conjunct1, rule_format, OF a])
  then have six: "\<exists>s'. step demo_ext (JobPublish 0 2) (clear state_a_admitted) = Some s'
         \<and> cache s' = [(''a'', cached_a)] \<and> current_memory_usage s' = 786432"
    by (simp only: aid m)
  from p one s pp two a three four five six show ?thesis
    by (intro conjI)
qed

theorem cleared_job_still_publishes:
  "map_option snapshot (run demo_ext run_clear (OptimizedFileCache 1 2)) = Some ([''a''], [''a''], [], 786432)
   \<and> map_option (lookup ''a'' (png ''a.png'' ''xx'') 3) (run demo_ext run_clear (OptimizedFileCache 1 2)) =
       Some (Inr cached_a)
   \<and> is_ready cached_a
   \<and> map_option job_states (run demo_ext (run_clear @ [GetOrCreate ''a'' (png ''a.png'' ''xx'') 3])
        (OptimizedFileCache 1 2)) = Some [Finished cached_a]"
  by (simp add: run_clear_def lookup_def job_states_def cached_a_def run_defs dict_defs nth_enumerate_eq)

subsection \<open>A job that fails\<close>

lemma finished_job_returned_once:
  assumes "dict_get (cache s) fid = None"
    and "dict_get (processing_queue s) fid = Some j"
    and "fut_state (executor s ! j) = Finished cached"
  shows "get_or_create fid fo now s = (Inr cached, s\<lparr>processing_queue := dict_pop (processing_queue s) fid\<rparr>)"
    and "get_or_create fid fo' now' (s\<lparr>processing_queue := dict_pop (processing_queue s) fid\<rparr>) =
           (Inr (placeholder fid (fo_name fo')),
            s\<lparr>executor := executor s @ [\<lparr>fut_file_id = fid, fut_file_obj = fo', fut_state = Pending\<rparr>],
              processing_queue := dict_pop (processing_queue s) fid @ [(fid, length (executor s))]\<rparr>)"
proof -
  show "get_or_create fid fo now s = (Inr cached, s\<lparr>processing_queue := dict_pop (processing_queue s) fid\<rparr>)"
    using assms by (simp add: get_or_create_def future_done_def future_result_def)
  show "get_or_create fid fo' now' (s\<lparr>processing_queue := dict_pop (processing_queue s) fid\<rparr>) =
           (Inr (placeholder fid (fo_name fo')),
            s\<lparr>executor := executor s @ [\<lparr>fut_file_id = fid, fut_file_obj = fo', fut_state = Pending\<rparr>],
              processing_queue := dict_pop (processing_queue s) fid @ [(fid, length (executor s))]\<rparr>)"
    using assms(1)
    by (simp add: get_or_create_def submit_def dict_get_pop_same dict_set_absent)
qed

lemma set_state_twice: "set_state j st' (set_state j st s) = set_state j st' s"
  by (cases "j < length (executor s)") (simp_all add: set_state_def list_update_beyond)

lemma job_state_set_state:
  "j < length (executor s) \<Longrightarrow> job_state (set_state j st s) j = Some st"
  by (simp add: job_state_def set_state_def)




subsection \<open>Two identifiers with the same content\<close>

lemma find_update_new:
  "find P (map snd al) = None \<Longrightarrow> P v \<Longrightarrow> find P (map snd (AList.update k v al)) = Some v"
  by (induction al) (auto split: if_splits)

lemma find_by_hash_publish:
  "find_by_hash s (file_hash cached) = None \<Longrightarrow>
   find_by_hash (publish fid cached now s) (file_hash cached) = Some cached"
  by (simp add: find_by_hash_def publish_def dict_set_def find_update_new)

lemma find_by_hash_Some:
  "find_by_hash s h = Some existing \<Longrightarrow> (\<exists>k. (k, existing) \<in> set (cache s)) \<and> file_hash existing = h"
  by (auto simp: find_by_hash_def find_Some_iff in_set_conv_nth) (metis nth_mem prod.collapse)

text \<open>
  C1, as the code has it. The hash depends on the first 8192 bytes only, and an inserted
  entry is found by its hash. When the job of an identifier finds an entry of its hash in
  \<open>cache\<close>, it returns that entry (the one stored under the other identifier) whatever
  the processors would do, and leaves the cache as it is: nothing is stored under the
  second identifier and no cost is added. \<^verbatim>\<open>get_or_create\<close> on the second identifier
  returns that entry once, when it finds the finished future, and pops the handle; the
  next \<^verbatim>\<open>get_or_create\<close> submits a new job and returns a placeholder.
\<close>

theorem duplicate_content_returns_existing:
  assumes "fo_getvalue fo = Inr file_data"
    and "find_by_hash s (get_file_hash ext file_data) = Some existing"
  shows "(take 8192 d1 = take 8192 d2 \<longrightarrow> get_file_hash ext d1 = get_file_hash ext d2)
   \<and> (\<forall>s0 fid1 cached t. find_by_hash s0 (file_hash cached) = None
         \<longrightarrow> find_by_hash (publish fid1 cached t s0) (file_hash cached) = Some cached)
   \<and> (\<exists>k. (k, existing) \<in> set (cache s)) \<and> file_hash existing = get_file_hash ext file_data
   \<and> (\<forall>io ic it fz.
         process_file_async
           (ext\<lparr>Image_open := io, Image_convert := ic, Image_thumbnail := it, fitz_open := fz\<rparr>)
           fid fo now s = (existing, s))
   \<and> (\<forall>j. job_state s j = Some (Running Started) \<longrightarrow> fut_file_id (executor s ! j) = fid
         \<longrightarrow> fut_file_obj (executor s ! j) = fo
         \<longrightarrow> run ext [JobPrepare j, JobReturn j] s = Some (set_state j (Finished existing) s))
   \<and> (\<forall>s1 j. dict_get (cache s1) fid = None \<longrightarrow> dict_get (processing_queue s1) fid = Some j
         \<longrightarrow> fut_state (executor s1 ! j) = Finished existing
         \<longrightarrow> get_or_create fid fo now s1 =
               (Inr existing, s1\<lparr>processing_queue := dict_pop (processing_queue s1) fid\<rparr>)
           \<and> get_or_create fid fo now' (snd (get_or_create fid fo now s1)) =
               (Inr (placeholder fid (fo_name fo)),
                s1\<lparr>executor := executor s1 @ [\<lparr>fut_file_id = fid, fut_file_obj = fo, fut_state = Pending\<rparr>],
                   processing_queue := dict_pop (processing_queue s1) fid @ [(fid, length (executor s1))]\<rparr>))"
proof -
  have h: "take 8192 d1 = take 8192 d2 \<longrightarrow> get_file_hash ext d1 = get_file_hash ext d2"
    by (simp add: get_file_hash_def)
  have pub: "find_by_hash (publish fid1 cached t s0) (file_hash cached) = Some cached"
    if "find_by_hash s0 (file_hash cached) = None" for s0 fid1 cached t
    using that by (rule find_by_hash_publish)
  have ex: "(\<exists>k. (k, existing) \<in> set (cache s)) \<and> file_hash existing = get_file_hash ext file_data"
    using assms(2) by (rule find_by_hash_Some)
  have a: "process_file_async
           (ext\<lparr>Image_open := io, Image_convert := ic, Image_thumbnail := it, fitz_open := fz\<rparr>)
           fid fo now s = (existing, s)" for io ic it fz
    using assms by (simp add: process_file_async_def process_prepare_def get_file_hash_def)
  have p: "process_prepare ext fid fo s = Returning existing"
    using assms by (simp add: process_prepare_def)
  have c: "run ext [JobPrepare j, JobReturn j] s = Some (set_state j (Finished existing) s)"
    if st: "job_state s j = Some (Running Started)" and id: "fut_file_id (executor s ! j) = fid"
      and fo: "fut_file_obj (executor s ! j) = fo" for j
  proof -
    have j: "j < length (executor s)"
      using st by (simp add: job_state_def split: if_splits)
    show ?thesis
      using st id fo p j by (simp add: job_state_set_state set_state_twice)
  qed
  have f: "get_or_create fid fo now s1 =
               (Inr existing, s1\<lparr>processing_queue := dict_pop (processing_queue s1) fid\<rparr>)
           \<and> get_or_create fid fo now' (snd (get_or_create fid fo now s1)) =
               (Inr (placeholder fid (fo_name fo)),
                s1\<lparr>executor := executor s1 @ [\<lparr>fut_file_id = fid, fut_file_obj = fo, fut_state = Pending\<rparr>],
                   processing_queue := dict_pop (processing_queue s1) fid @ [(fid, length (executor s1))]\<rparr>)"
    if "dict_get (cache s1) fid = None" "dict_get (processing_queue s1) fid = Some j"
      "fut_state (executor s1 ! j) = Finished existing" for s1 j
    using finished_job_returned_once [OF that] by simp
  from h pub ex a c f show ?thesis by blast
qed

theorem duplicate_content_returns_existing_witness:
  "fo_getvalue (png ''b.png'' ''xx'') = Inr ''xx''
   \<and> find_by_hash state_a (get_file_hash demo_ext ''xx'') = Some cached_a
   \<and> process_file_async demo_ext ''b'' (png ''b.png'' ''xx'') 3 state_a = (cached_a, state_a)
   \<and> file_id cached_a = ''a''"
proof -
  have g: "fo_getvalue (png ''b.png'' ''xx'') = Inr ''xx''"
    by (simp add: png_def)
  have f: "find_by_hash state_a (get_file_hash demo_ext ''xx'') = Some cached_a"
    by (simp add: find_by_hash_def state_a_def get_file_hash_def demo_ext_def cached_a_def CachedFile_def)
  have e: "demo_ext\<lparr>Image_open := Image_open demo_ext, Image_convert := Image_convert demo_ext,
             Image_thumbnail := Image_thumbnail demo_ext, fitz_open := fitz_open demo_ext\<rparr> = demo_ext"
    by simp
  from duplicate_content_returns_existing [OF g f, of _ _ "''b''" 3]
  have "process_file_async
           (demo_ext\<lparr>Image_open := Image_open demo_ext, Image_convert := Image_convert demo_ext,
             Image_thumbnail := Image_thumbnail demo_ext, fitz_open := fitz_open demo_ext\<rparr>)
           ''b'' (png ''b.png'' ''xx'') 3 state_a = (cached_a, state_a)"
    by blast
  with g f e show ?thesis
    by (simp add: cached_a_def CachedFile_def)
qed

theorem duplicate_identifier_not_stored:
  "map_option snapshot (run demo_ext run_dup (OptimizedFileCache 1 2)) =
     Some ([''a''], [''a''], [''a'', ''b''], 786432)
   \<and> map_option (lookup ''b'' (png ''b.png'' ''xx'') 4) (run demo_ext run_dup (OptimizedFileCache 1 2)) =
       Some (Inr cached_a)
   \<and> map_option snapshot (run demo_ext (run_dup @ [GetOrCreate ''b'' (png ''b.png'' ''xx'') 4])
        (OptimizedFileCache 1 2)) = Some ([''a''], [''a''], [''a''], 786432)
   \<and> map_option (lookup ''b'' (png ''b.png'' ''xx'') 5)
        (run demo_ext (run_dup @ [GetOrCreate ''b'' (png ''b.png'' ''xx'') 4]) (OptimizedFileCache 1 2)) =
       Some (Inr (placeholder ''b'' ''b.png''))
   \<and> map_option job_states
        (run demo_ext (run_dup @ [GetOrCreate ''b'' (png ''b.png'' ''xx'') 4, GetOrCreate ''b'' (png ''b.png'' ''xx'') 5])
           (OptimizedFileCache 1 2)) = Some [Finished cached_a, Finished cached_a, Pending]"
  by (simp add: run_dup_def run_a_def cached_a_def lookup_def job_states_def run_defs dict_defs)

subsection \<open>A document that cannot be read\<close>

lemma get_texts_fails: "get_texts pages = Inl e \<longleftrightarrow> find isl pages = Some (Inl e)"
  by (induction pages rule: get_texts.induct) (auto split: sum.splits)

text \<open>
  C9. When the extraction fails with \<open>e\<close>, \<^verbatim>\<open>extract_pdf_text\<close> raises nothing and returns
  the dictionary with the text \<open>[Errore estrazione PDF: e]\<close>, which is not empty and
  contains \<open>str e\<close>, and with the flag \<open>error\<close> set. For a PDF upload whose hash is not
  cached, the job builds an entry of content type \<open>''pdf''\<close> holding that dictionary,
  with the length of the encoded text as its cost, and inserts it; \<^verbatim>\<open>get_for_ai_model\<close> on
  the entry returns the text.
\<close>

theorem unreadable_pdf_yields_marker_entry:
  assumes "extraction_fails ext file_data 10 e"
  shows "extract_pdf_text ext file_data 10 =
           [(''text_content'', Str (pdf_error_text e)), (''error'', Bool True)]
   \<and> pdf_error_text e = ''[Errore estrazione PDF: '' @ str e @ '']'' \<and> pdf_error_text e \<noteq> []
   \<and> (fo_getvalue fo = Inr file_data \<longrightarrow> fo_type fo = ''application/pdf''
        \<longrightarrow> find_by_hash s (get_file_hash ext file_data) = None
        \<longrightarrow> process_prepare ext fid fo s =
              Processed (CachedFile fid (fo_name fo) ''pdf''
                (Some (Dict [(''text_content'', Str (pdf_error_text e)), (''error'', Bool True)]))
                (int (length (encode (pdf_error_text e)))) (get_file_hash ext file_data))
          \<and> fst (process_file_async ext fid fo now s) =
              CachedFile fid (fo_name fo) ''pdf''
                (Some (Dict [(''text_content'', Str (pdf_error_text e)), (''error'', Bool True)]))
                (int (length (encode (pdf_error_text e)))) (get_file_hash ext file_data)
          \<and> dict_get (cache (snd (process_file_async ext fid fo now s))) fid =
              Some (fst (process_file_async ext fid fo now s)))
   \<and> get_for_ai_model
        (CachedFile fid (fo_name fo) ''pdf''
           (Some (Dict [(''text_content'', Str (pdf_error_text e)), (''error'', Bool True)]))
           (int (length (encode (pdf_error_text e)))) (get_file_hash ext file_data)) =
       Inr (Some (Str (pdf_error_text e)))
   \<and> memory_usage
        (CachedFile fid (fo_name fo) ''pdf''
           (Some (Dict [(''text_content'', Str (pdf_error_text e)), (''error'', Bool True)]))
           (int (length (encode (pdf_error_text e)))) (get_file_hash ext file_data)) =
       int (length (encode (pdf_error_text e)))"
proof -
  let ?d = "[(''text_content'', Str (pdf_error_text e)), (''error'', Bool True)]"
  let ?c = "CachedFile fid (fo_name fo) ''pdf'' (Some (Dict ?d))
              (int (length (encode (pdf_error_text e)))) (get_file_hash ext file_data)"
  have x: "extract_pdf_text ext file_data 10 = ?d"
  proof (cases "fitz_open ext file_data")
    case (Inl e')
    then show ?thesis
      using assms by (simp add: extraction_fails_def extract_pdf_text_def)
  next
    case (Inr doc)
    then have "find isl (take (min 10 (length doc)) doc) = Some (Inl e)"
      using assms by (simp add: extraction_fails_def)
    then have "get_texts (take (min 10 (length doc)) doc) = Inl e"
      by (simp add: get_texts_fails)
    then show ?thesis
      using Inr by (simp add: extract_pdf_text_def)
  qed
  have t: "pdf_error_text e = ''[Errore estrazione PDF: '' @ str e @ '']'' \<and> pdf_error_text e \<noteq> []"
    by (simp add: pdf_error_text_def)
  have p: "process_prepare ext fid fo s = Processed ?c"
    if "fo_getvalue fo = Inr file_data" "fo_type fo = ''application/pdf''"
      "find_by_hash s (get_file_hash ext file_data) = None"
    using that x by (simp add: process_prepare_def dict_get_def)
  have r: "fst (process_file_async ext fid fo now s) = ?c
      \<and> dict_get (cache (snd (process_file_async ext fid fo now s))) fid =
          Some (fst (process_file_async ext fid fo now s))"
    if "process_prepare ext fid fo s = Processed ?c"
    using that by (simp add: process_file_async_def publish_def dict_get_set_same)
  have g: "get_for_ai_model ?c = Inr (Some (Str (pdf_error_text e)))"
    by (simp add: get_for_ai_model_def is_ready_def CachedFile_def dict_get_def)
  have m: "memory_usage ?c = int (length (encode (pdf_error_text e)))"
    by (simp add: CachedFile_def)
  from x t p r g m show ?thesis by blast
qed

theorem unreadable_pdf_yields_marker_entry_witness:
  "extraction_fails demo_ext ''junk'' 10 (Exception ''broken document'')
   \<and> extract_pdf_text demo_ext ''junk'' 10 =
       [(''text_content'', Str ''[Errore estrazione PDF: broken document]''), (''error'', Bool True)]
   \<and> fst (process_file_async demo_ext ''p'' (pdf ''p.pdf'' ''junk'') 1 (OptimizedFileCache 1 2)) =
       CachedFile ''p'' ''p.pdf'' ''pdf''
         (Some (Dict [(''text_content'', Str ''[Errore estrazione PDF: broken document]''), (''error'', Bool True)]))
         40 ''junk''
   \<and> get_for_ai_model (fst (process_file_async demo_ext ''p'' (pdf ''p.pdf'' ''junk'') 1 (OptimizedFileCache 1 2))) =
       Inr (Some (Str ''[Errore estrazione PDF: broken document]''))
   \<and> fitz_open torn_ext ''%PDF'' = Inr [Inr ''one'', Inl (Exception ''cannot read page''), Inr ''three'']
   \<and> extraction_fails torn_ext ''%PDF'' 10 (Exception ''cannot read page'')
   \<and> extract_pdf_text torn_ext ''%PDF'' 10 =
       [(''text_content'', Str ''[Errore estrazione PDF: cannot read page]''), (''error'', Bool True)]
   \<and> fst (process_file_async torn_ext ''q'' (pdf ''q.pdf'' ''%PDF'') 1 (OptimizedFileCache 1 2)) =
       CachedFile ''q'' ''q.pdf'' ''pdf''
         (Some (Dict [(''text_content'', Str ''[Errore estrazione PDF: cannot read page]''), (''error'', Bool True)]))
         41 ''%PDF''
   \<and> get_for_ai_model (fst (process_file_async torn_ext ''q'' (pdf ''q.pdf'' ''%PDF'') 1 (OptimizedFileCache 1 2))) =
       Inr (Some (Str ''[Errore estrazione PDF: cannot read page]''))"
proof -
  have f: "extraction_fails demo_ext ''junk'' 10 (Exception ''broken document'')"
    by (simp add: extraction_fails_def demo_ext_def)
  have g: "fo_getvalue (pdf ''p.pdf'' ''junk'') = Inr ''junk''" "fo_type (pdf ''p.pdf'' ''junk'') = ''application/pdf''"
    "fo_name (pdf ''p.pdf'' ''junk'') = ''p.pdf''"
    by (simp_all add: pdf_def)
  have h: "find_by_hash (OptimizedFileCache 1 2) (get_file_hash demo_ext ''junk'') = None"
    by (simp add: find_by_hash_def OptimizedFileCache_def)
  have t: "pdf_error_text (Exception ''broken document'') = ''[Errore estrazione PDF: broken document]''"
    "get_file_hash demo_ext ''junk'' = ''junk''"
    by (simp_all add: pdf_error_text_def get_file_hash_def demo_ext_def)
  note inst = unreadable_pdf_yields_marker_entry [OF f, of "pdf ''p.pdf'' ''junk''" "OptimizedFileCache 1 2" "''p''" 1]
  from inst g h have first:
    "extract_pdf_text demo_ext ''junk'' 10 =
       [(''text_content'', Str ''[Errore estrazione PDF: broken document]''), (''error'', Bool True)]
     \<and> fst (process_file_async demo_ext ''p'' (pdf ''p.pdf'' ''junk'') 1 (OptimizedFileCache 1 2)) =
       CachedFile ''p'' ''p.pdf'' ''pdf''
         (Some (Dict [(''text_content'', Str ''[Errore estrazione PDF: broken document]''), (''error'', Bool True)]))
         40 ''junk''
     \<and> get_for_ai_model (fst (process_file_async demo_ext ''p'' (pdf ''p.pdf'' ''junk'') 1 (OptimizedFileCache 1 2))) =
       Inr (Some (Str ''[Errore estrazione PDF: broken document]''))"
    by (simp add: t encode_def)
  have o: "fitz_open torn_ext ''%PDF'' = Inr [Inr ''one'', Inl (Exception ''cannot read page''), Inr ''three'']"
    by (simp add: torn_ext_def)
  have f': "extraction_fails torn_ext ''%PDF'' 10 (Exception ''cannot read page'')"
    by (simp add: extraction_fails_def o)
  have g': "fo_getvalue (pdf ''q.pdf'' ''%PDF'') = Inr ''%PDF''" "fo_type (pdf ''q.pdf'' ''%PDF'') = ''application/pdf''"
    "fo_name (pdf ''q.pdf'' ''%PDF'') = ''q.pdf''"
    by (simp_all add: pdf_def)
  have h': "find_by_hash (OptimizedFileCache 1 2) (get_file_hash torn_ext ''%PDF'') = None"
    by (simp add: find_by_hash_def OptimizedFileCache_def)
  have t': "pdf_error_text (Exception ''cannot read page'') = ''[Errore estrazione PDF: cannot read page]''"
    "get_file_hash torn_ext ''%PDF'' = ''%PDF''"
    by (simp_all add: pdf_error_text_def get_file_hash_def torn_ext_def demo_ext_def)
  note inst' = unreadable_pdf_yields_marker_entry [OF f', of "pdf ''q.pdf'' ''%PDF''" "OptimizedFileCache 1 2" "''q''" 1]
  from inst' g' h' have second:
    "extract_pdf_text torn_ext ''%PDF'' 10 =
       [(''text_content'', Str ''[Errore estrazione PDF: cannot read page]''), (''error'', Bool True)]
     \<and> fst (process_file_async torn_ext ''q'' (pdf ''q.pdf'' ''%PDF'') 1 (OptimizedFileCache 1 2)) =
       CachedFile ''q'' ''q.pdf'' ''pdf''
         (Some (Dict [(''text_content'', Str ''[Errore estrazione PDF: cannot read page]''), (''error'', Bool True)]))
         41 ''%PDF''
     \<and> get_for_ai_model (fst (process_file_async torn_ext ''q'' (pdf ''q.pdf'' ''%PDF'') 1 (OptimizedFileCache 1 2))) =
       Inr (Some (Str ''[Errore estrazione PDF: cannot read page]''))"
    by (simp add: t' encode_def)
  from f first o f' second show ?thesis
    by (elim conjE) (intro conjI; assumption)
qed

subsection \<open>What the model is given\<close>

lemma bitmap_ofD: "bitmap_of p = Some img \<Longrightarrow> p = Some (Img img)"
  by (cases p rule: bitmap_of.cases) auto

lemma text_ofD: "text_of p = Some body \<Longrightarrow> \<exists>d. p = Some (Dict d) \<and> dict_get d ''text_content'' = Some (Str body)"
  by (cases p rule: text_of.cases) (auto split: option.splits pyval.splits)

lemma is_dictD: "is_dict p \<Longrightarrow> \<exists>d. p = Some (Dict d)"
  by (cases p rule: is_dict.cases) auto

lemma materialized_error_entry: "materialized (error_entry fid fo e)"
  by (simp add: materialized_def error_entry_def CachedFile_def)

lemma find_by_hash_in_cache:
  "find_by_hash s h = Some cf \<Longrightarrow> \<exists>k. (k, cf) \<in> set (cache s)"
  using find_by_hash_Some by blast

lemma materialized_pdf:
  "dict_get d ''text_content'' = Some (Str body) \<Longrightarrow> materialized (CachedFile fid n ''pdf'' (Some (Dict d)) m h)"
  by (simp add: materialized_def CachedFile_def)

lemma materialized_image: "materialized (CachedFile fid n ''image'' (Some (Img img)) m h)"
  by (simp add: materialized_def CachedFile_def)

lemma prepare_fresh:
  assumes "fo_getvalue fo = Inr file_data" and "find_by_hash s (get_file_hash ext file_data) = None"
    and "held (Running (process_prepare ext fid fo s)) = Some cf"
  shows "(\<exists>e. cf = error_entry fid fo e)
       \<or> (\<exists>d text m h. cf = CachedFile fid (fo_name fo) ''pdf'' (Some (Dict d)) m h
             \<and> dict_get d ''text_content'' = Some (Str text))
       \<or> (\<exists>img m h. cf = CachedFile fid (fo_name fo) ''image'' (Some (Img img)) m h)"
proof (cases "fo_type fo = ''application/pdf''")
  case True
  then show ?thesis
    using assms
    by (simp add: process_prepare_def Let_def split: option.splits pyval.splits) blast+
next
  case False
  then show ?thesis
    using assms
    by (simp add: process_prepare_def Let_def split: sum.splits) blast+
qed

lemma materialized_prepare:
  assumes "list_all (\<lambda>(k, cf). materialized cf) (cache s)"
    and "held (Running (process_prepare ext fid fo s)) = Some cf"
  shows "materialized cf"
proof (cases "fo_getvalue fo")
  case (Inl e)
  then show ?thesis
    using assms(2) by (auto simp: process_prepare_def materialized_error_entry)
next
  case (Inr file_data)
  show ?thesis
  proof (cases "find_by_hash s (get_file_hash ext file_data)")
    case (Some existing)
    then have "cf = existing"
      using assms(2) Inr by (simp add: process_prepare_def)
    moreover from Some obtain k where "(k, existing) \<in> set (cache s)"
      using find_by_hash_in_cache by blast
    ultimately show ?thesis
      using assms(1) by (auto simp: list_all_iff)
  next
    case None
    from prepare_fresh [OF Inr None assms(2)] show ?thesis
      using materialized_error_entry materialized_pdf materialized_image by blast
  qed
qed

lemma evict_loop_cache_subset: "set (cache (evict_loop xs n s)) \<subseteq> set (cache s)"
proof (induction xs n s rule: evict_loop.induct)
  case (1 n s)
  then show ?case by simp
next
  case (2 fid t sorted_files n s)
  then show ?case
    by (auto simp: dict_pop_def AList.delete_eq split: option.splits if_splits)
qed

lemma evict_lru_cache_subset: "set (cache (evict_lru_if_needed n s)) \<subseteq> set (cache s)"
  using evict_loop_cache_subset by (simp add: evict_lru_if_needed_def)

lemma list_all_update:
  "list_all (\<lambda>(k, v). P v) al \<Longrightarrow> P v \<Longrightarrow> list_all (\<lambda>(k, v). P v) (AList.update k v al)"
  by (induction al) auto

lemma list_all_delete:
  "list_all Q al \<Longrightarrow> list_all Q (AList.delete k al)"
  by (simp add: AList.delete_eq list_all_iff)

lemma consistent_init: "consistent (OptimizedFileCache mb k)"
  by (simp add: consistent_def OptimizedFileCache_def)

lemma consistent_set_state:
  assumes "consistent s" and "case held st of Some cf \<Rightarrow> materialized cf | None \<Rightarrow> True"
  shows "consistent (set_state j st s)"
proof -
  have "list_all (\<lambda>f. case held (fut_state f) of Some cf \<Rightarrow> materialized cf | None \<Rightarrow> True)
          ((executor s)[j := (executor s ! j)\<lparr>fut_state := st\<rparr>])"
    using assms by (auto simp: consistent_def list_all_iff dest!: set_update_subset_insert [THEN subsetD])
  then show ?thesis
    using assms(1) by (simp add: consistent_def set_state_def)
qed

lemma consistent_cache_subset:
  assumes "consistent s" and "set (cache s') \<subseteq> set (cache s)" and "executor s' = executor s"
    and "processing_queue s' = processing_queue s"
  shows "consistent s'"
  using assms by (auto simp: consistent_def list_all_iff)

lemma held_materialized:
  assumes "consistent s" and "job_state s j = Some st" and "held st = Some cf"
  shows "materialized cf"
proof -
  have "j < length (executor s)" "fut_state (executor s ! j) = st"
    using assms(2) by (auto simp: job_state_def split: if_splits)
  then have "executor s ! j \<in> set (executor s)" by simp
  with assms(1) have "case held (fut_state (executor s ! j)) of Some cf \<Rightarrow> materialized cf | None \<Rightarrow> True"
    by (simp add: consistent_def list_all_iff)
  with \<open>fut_state (executor s ! j) = st\<close> assms(3) show ?thesis by simp
qed

lemma consistent_get_or_create:
  assumes "consistent s"
  shows "consistent (snd (get_or_create fid fo now s))"
proof (cases "dict_get (cache s) fid")
  case (Some c)
  then show ?thesis
    using assms by (simp add: get_or_create_def consistent_def)
next
  case None
  show ?thesis
  proof (cases "dict_get (processing_queue s) fid")
    case (Some j)
    then show ?thesis
      using None assms
      by (auto simp: get_or_create_def consistent_def dict_pop_def list_all_iff AList.delete_eq)
  next
    case n: None
    then show ?thesis
      using None assms
      by (auto simp: get_or_create_def consistent_def submit_def dict_set_absent list_all_iff less_Suc_eq)
  qed
qed

lemma consistent_remove_file: "consistent s \<Longrightarrow> consistent (remove_file fid s)"
  by (auto simp: remove_file_def consistent_def dict_defs list_all_iff AList.delete_eq split: option.splits)

lemma consistent_clear: "consistent s \<Longrightarrow> consistent (clear s)"
  by (auto simp: clear_def consistent_def list_all_iff cancel_def in_set_enumerate_eq)

lemma consistent_publish:
  "consistent s \<Longrightarrow> materialized cf \<Longrightarrow> consistent (publish fid cf now s)"
  by (simp add: consistent_def publish_def dict_set_def list_all_update)

lemma consistent_step:
  assumes "consistent s" and "step ext ev s = Some s'"
  shows "consistent s'"
proof (cases ev)
  case (GetOrCreate fid fo now)
  then show ?thesis using assms by (auto simp: consistent_get_or_create)
next
  case (RemoveFile fid)
  then show ?thesis using assms by (auto simp: consistent_remove_file)
next
  case Clear
  then show ?thesis using assms by (auto simp: consistent_clear)
next
  case (JobStart j)
  then show ?thesis using assms by (auto intro!: consistent_set_state split: if_splits)
next
  case (JobPrepare j)
  with assms(2) have st: "job_state s j = Some (Running Started)"
    and s': "s' = set_state j (Running (process_prepare ext (fut_file_id (executor s ! j))
                 (fut_file_obj (executor s ! j)) s)) s"
    by (auto split: option.splits future_state.splits job_pc.splits)
  have "case held (Running (process_prepare ext (fut_file_id (executor s ! j))
                 (fut_file_obj (executor s ! j)) s)) of Some cf \<Rightarrow> materialized cf | None \<Rightarrow> True"
    using materialized_prepare assms(1) by (auto simp: consistent_def split: option.splits)
  then show ?thesis
    unfolding s' using assms(1) by (rule consistent_set_state [rotated])
next
  case (JobEvict j)
  with assms(2) obtain cf where st: "job_state s j = Some (Running (Processed cf))"
    and s': "s' = set_state j (Running (Admitted cf)) (evict_lru_if_needed (memory_usage cf) s)"
    by (auto split: option.splits future_state.splits job_pc.splits)
  have m: "materialized cf"
    using held_materialized [OF assms(1) st] by simp
  have "consistent (evict_lru_if_needed (memory_usage cf) s)"
    using assms(1) by (rule consistent_cache_subset) (simp_all add: evict_lru_cache_subset)
  then show ?thesis
    unfolding s' using m by (intro consistent_set_state) simp_all
next
  case (JobPublish j now)
  with assms(2) obtain cf where st: "job_state s j = Some (Running (Admitted cf))"
    and s': "s' = set_state j (Running (Returning cf)) (publish (fut_file_id (executor s ! j)) cf now s)"
    by (auto split: option.splits future_state.splits job_pc.splits)
  have m: "materialized cf"
    using held_materialized [OF assms(1) st] by simp
  then show ?thesis
    unfolding s' using assms(1) by (intro consistent_set_state consistent_publish) simp_all
next
  case (JobReturn j)
  with assms(2) obtain cf where st: "job_state s j = Some (Running (Returning cf))"
    and s': "s' = set_state j (Finished cf) s"
    by (auto split: option.splits future_state.splits job_pc.splits)
  have m: "materialized cf"
    using held_materialized [OF assms(1) st] by simp
  then show ?thesis
    unfolding s' using assms(1) by (intro consistent_set_state) simp_all
qed

lemma consistent_run: "consistent s \<Longrightarrow> run ext evs s = Some s' \<Longrightarrow> consistent s'"
  by (induction evs arbitrary: s) (auto split: option.splits dest: consistent_step)

lemma lookup_shape:
  assumes "consistent s" and "lookup fid fo now s = Inr cf"
  shows "cf = placeholder fid (fo_name fo) \<or> materialized cf"
proof (cases "dict_get (cache s) fid")
  case (Some c)
  then have "cf = c" using assms(2) by (simp add: lookup_def get_or_create_def)
  moreover have "(fid, c) \<in> set (cache s)"
    using Some by (simp add: dict_get_def map_of_SomeD)
  ultimately show ?thesis
    using assms(1) by (auto simp: consistent_def list_all_iff)
next
  case None
  show ?thesis
  proof (cases "dict_get (processing_queue s) fid")
    case n: None
    then show ?thesis
      using None assms(2) by (simp add: lookup_def get_or_create_def submit_def)
  next
    case (Some j)
    then have "(fid, j) \<in> set (processing_queue s)"
      by (simp add: dict_get_def map_of_SomeD)
    with assms(1) have j: "j < length (executor s)"
      by (auto simp: consistent_def list_all_iff)
    show ?thesis
    proof (cases "future_done (executor s ! j)")
      case False
      then show ?thesis
        using None Some assms(2) by (simp add: lookup_def get_or_create_def)
    next
      case True
      then have "fut_state (executor s ! j) = Finished cf"
        using None Some assms(2)
        by (auto simp: lookup_def get_or_create_def future_result_def split: future_state.splits)
      then have "job_state s j = Some (Finished cf)"
        using j by (simp add: job_state_def)
      from held_materialized [OF assms(1) this] show ?thesis by simp
    qed
  qed
qed

lemma materialized_served:
  assumes "materialized cf"
  shows "(\<exists>p. get_for_ai_model cf = Inr p)
   \<and> (content_type cf = ''image'' \<longrightarrow>
        (\<exists>img. processed_data cf = Some (Img img) \<and> get_for_ai_model cf = Inr (Some (Img img))))
   \<and> (content_type cf = ''pdf'' \<longrightarrow>
        (\<exists>d text. processed_data cf = Some (Dict d) \<and> dict_get d ''text_content'' = Some (Str text)
           \<and> get_for_ai_model cf = Inr (Some (Str text))))
   \<and> (content_type cf = ''error'' \<longrightarrow> get_for_ai_model cf = Inr None)"
proof -
  from assms have np: "\<not> is_placeholder cf"
    by (simp add: materialized_def)
  from assms consider
      (img) img where "processed_data cf = Some (Img img)" "content_type cf = ''image''"
    | (pdf) d body where "processed_data cf = Some (Dict d)" "content_type cf = ''pdf''"
        "dict_get d ''text_content'' = Some (Str body)"
    | (err) d where "processed_data cf = Some (Dict d)" "content_type cf = ''error''"
    unfolding materialized_def using bitmap_ofD text_ofD is_dictD by blast
  then show ?thesis
  proof cases
    case img
    then show ?thesis using np by (simp add: get_for_ai_model_def is_ready_def)
  next
    case pdf
    then show ?thesis using np by (simp add: get_for_ai_model_def is_ready_def)
  next
    case err
    then show ?thesis using np by (simp add: get_for_ai_model_def is_ready_def)
  qed
qed

text \<open>
  C8. In every state the cache reaches from its construction, the entry \<^verbatim>\<open>get_or_create\<close>
  returns is a placeholder or has one of the shapes the code builds, and so has every
  cached entry. On it \<^verbatim>\<open>get_for_ai_model\<close> raises nothing; it returns the bitmap for
  content type \<open>''image''\<close>, the text under \<open>text_content\<close> for \<open>''pdf''\<close>, and \<^verbatim>\<open>None\<close> for
  an error entry and for a placeholder.
\<close>

theorem get_for_ai_model_by_kind:
  assumes "run ext evs (OptimizedFileCache mb k) = Some s" and "lookup fid fo now s = Inr cf"
  shows "(cf = placeholder fid (fo_name fo) \<or> materialized cf)
   \<and> (\<exists>p. get_for_ai_model cf = Inr p)
   \<and> (content_type cf = ''image'' \<longrightarrow>
        (\<exists>img. processed_data cf = Some (Img img) \<and> get_for_ai_model cf = Inr (Some (Img img))))
   \<and> (content_type cf = ''pdf'' \<longrightarrow>
        (\<exists>d body. processed_data cf = Some (Dict d) \<and> dict_get d ''text_content'' = Some (Str body)
           \<and> get_for_ai_model cf = Inr (Some (Str body))))
   \<and> (content_type cf = ''error'' \<longrightarrow> get_for_ai_model cf = Inr None)
   \<and> (is_placeholder cf \<longrightarrow> get_for_ai_model cf = Inr None)
   \<and> (\<forall>i c. (i, c) \<in> set (cache s) \<longrightarrow> materialized c \<and> (\<exists>p. get_for_ai_model c = Inr p))
   \<and> get_for_ai_model (placeholder fid' fname) = Inr None
   \<and> get_for_ai_model (error_entry fid' fo' e) = Inr None"
proof -
  have c: "consistent s"
    using consistent_run [OF consistent_init assms(1)] .
  have ph: "get_for_ai_model (placeholder i n) = Inr None" for i n
    by (simp add: get_for_ai_model_def is_ready_def placeholder_def CachedFile_def)
  have er: "get_for_ai_model (error_entry fid' fo' e) = Inr None"
    by (simp add: get_for_ai_model_def is_ready_def error_entry_def CachedFile_def)
  have pl: "get_for_ai_model cf = Inr None" if "is_placeholder cf"
    using that by (simp add: get_for_ai_model_def is_ready_def)
  have ce: "materialized c \<and> (\<exists>p. get_for_ai_model c = Inr p)" if "(i, c) \<in> set (cache s)" for i c
  proof -
    have "materialized c"
      using c that by (auto simp: consistent_def list_all_iff)
    then show ?thesis
      using materialized_served by blast
  qed
  from lookup_shape [OF c assms(2)] show ?thesis
  proof
    assume p: "cf = placeholder fid (fo_name fo)"
    then have "content_type cf = ''processing''"
      by (simp add: placeholder_def CachedFile_def)
    then show ?thesis
      using p ph er ce pl by auto
  next
    assume "materialized cf"
    from materialized_served [OF this] this show ?thesis
      using ph er ce pl by blast
  qed
qed

theorem get_for_ai_model_by_kind_witness:
  "run demo_ext run_a (OptimizedFileCache 1 2) = Some state_a
   \<and> lookup ''a'' (png ''a.png'' ''xx'') 3 state_a = Inr cached_a
   \<and> content_type cached_a = ''image''
   \<and> (\<exists>img. processed_data cached_a = Some (Img img) \<and> get_for_ai_model cached_a = Inr (Some (Img img)))"
proof -
  have l: "lookup ''a'' (png ''a.png'' ''xx'') 3 state_a = Inr cached_a"
    by (simp add: lookup_def get_or_create_def state_a_def dict_get_def)
  have ct: "content_type cached_a = ''image''"
    by (simp add: cached_a_def CachedFile_def)
  from get_for_ai_model_by_kind [OF run_a_state l] ct run_a_state l show ?thesis
    by blast
qed

subsection \<open>The byte count\<close>


lemma keys_pop: "set (dict_keys (dict_pop d k)) = set (dict_keys d) - {k}"
  by (simp add: dict_defs AList.delete_keys)

lemma distinct_pop: "distinct (dict_keys d) \<Longrightarrow> distinct (dict_keys (dict_pop d k))"
  by (simp add: dict_defs AList.distinct_delete)

lemma keys_set: "set (dict_keys (dict_set d k v)) = insert k (set (dict_keys d))"
  by (auto simp: dict_defs AList.update_keys)

lemma distinct_set: "distinct (dict_keys d) \<Longrightarrow> distinct (dict_keys (dict_set d k v))"
  by (simp add: dict_defs AList.distinct_update)

lemma get_None_iff: "dict_get d k = None \<longleftrightarrow> k \<notin> set (dict_keys d)"
  by (simp add: dict_defs map_of_eq_None_iff)









lemma evict_loop_cache_keys:
  "dict_get (cache s) k = None \<Longrightarrow> dict_get (cache (evict_loop xs n s)) k = None"
proof (induction xs n s rule: evict_loop.induct)
  case (1 n s)
  then show ?case by simp
next
  case (2 fid t sorted_files n s)
  then show ?case
    by (auto simp: dict_defs AList.delete_conv' split: option.splits)
qed

lemma evict_loop_result:
  "current_memory_usage (evict_loop xs n s) + n \<le> max_memory_bytes (evict_loop xs n s)
   \<or> (\<forall>k \<in> set (map fst xs). dict_get (cache (evict_loop xs n s)) k = None)"
proof (induction xs n s rule: evict_loop.induct)
  case (1 n s)
  then show ?case by simp
next
  case (2 fid t sorted_files n s)
  show ?case
  proof (cases "current_memory_usage s + n \<le> max_memory_bytes s")
    case True
    then show ?thesis by simp
  next
    case False
    show ?thesis
    proof (cases "dict_get (cache s) fid")
      case None
      then have "dict_get (cache (evict_loop sorted_files n s)) fid = None"
        by (rule evict_loop_cache_keys)
      with False None 2(1) [OF False None] show ?thesis
        by auto
    next
      case (Some cached)
      let ?s1 = "s\<lparr>cache := dict_pop (cache s) fid, access_times := dict_pop (access_times s) fid,
                    current_memory_usage := current_memory_usage s - memory_usage cached\<rparr>"
      have "dict_get (cache ?s1) fid = None"
        by (simp add: dict_get_pop_same)
      then have "dict_get (cache (evict_loop sorted_files n ?s1)) fid = None"
        by (rule evict_loop_cache_keys)
      with False Some 2(2) [OF False Some] show ?thesis
        by auto
    qed
  qed
qed

lemma same_keys_pop:
  "same_keys s \<Longrightarrow>
   same_keys (s\<lparr>cache := dict_pop (cache s) fid, access_times := dict_pop (access_times s) fid,
               current_memory_usage := u\<rparr>)"
  by (simp add: same_keys_def keys_pop distinct_pop)

lemma same_keys_evict_loop: "same_keys s \<Longrightarrow> same_keys (evict_loop xs n s)"
proof (induction xs n s rule: evict_loop.induct)
  case (1 n s)
  then show ?case by simp
next
  case (2 fid t sorted_files n s)
  then show ?case
    by (auto simp: same_keys_pop split: option.splits)
qed

lemma same_keys_evict: "same_keys s \<Longrightarrow> same_keys (evict_lru_if_needed n s)"
  by (simp add: evict_lru_if_needed_def same_keys_evict_loop)

lemma same_keys_remove_file: "same_keys s \<Longrightarrow> same_keys (remove_file fid s)"
  by (auto simp: remove_file_def same_keys_pop split: option.splits)

lemma same_keys_clear: "same_keys (clear s)"
  by (simp add: same_keys_def dict_keys_def)

lemma same_keys_publish: "same_keys s \<Longrightarrow> same_keys (publish fid cached now s)"
  by (simp add: same_keys_def publish_def keys_set distinct_set)

lemma same_keys_get_or_create:
  assumes "same_keys s"
  shows "same_keys (snd (get_or_create fid fo now s))"
proof (cases "dict_get (cache s) fid")
  case (Some c)
  then have "fid \<in> set (dict_keys (cache s))"
    using get_None_iff [of "cache s" fid] by simp
  then show ?thesis
    using assms Some by (auto simp: get_or_create_def same_keys_def keys_set distinct_set)
next
  case None
  then show ?thesis
    using assms by (auto simp: get_or_create_def same_keys_def submit_def split: option.splits)
qed

lemma same_keys_set_state: "same_keys (set_state j st s) = same_keys s"
  by (simp add: same_keys_def)

lemma same_keys_step:
  assumes "same_keys s" and "step ext ev s = Some s'"
  shows "same_keys s'"
proof (cases ev)
  case (GetOrCreate fid fo now)
  then show ?thesis using assms by (auto simp: same_keys_get_or_create)
next
  case (RemoveFile fid)
  then show ?thesis using assms by (auto simp: same_keys_remove_file)
next
  case Clear
  then show ?thesis using assms by (auto simp: same_keys_clear)
next
  case (JobStart j)
  then show ?thesis using assms by (auto simp: same_keys_set_state split: if_splits)
next
  case (JobPrepare j)
  then show ?thesis
    using assms by (auto simp: same_keys_set_state split: option.splits future_state.splits job_pc.splits)
next
  case (JobEvict j)
  then show ?thesis
    using assms
    by (auto simp: same_keys_set_state same_keys_evict split: option.splits future_state.splits job_pc.splits)
next
  case (JobPublish j now)
  then show ?thesis
    using assms
    by (auto simp: same_keys_set_state same_keys_publish split: option.splits future_state.splits job_pc.splits)
next
  case (JobReturn j)
  then show ?thesis
    using assms by (auto simp: same_keys_set_state split: option.splits future_state.splits job_pc.splits)
qed

lemma same_keys_run: "same_keys s \<Longrightarrow> run ext evs s = Some s' \<Longrightarrow> same_keys s'"
  by (induction evs arbitrary: s) (auto split: option.splits dest: same_keys_step)

lemma same_keys_init: "same_keys (OptimizedFileCache mb k)"
  by (simp add: same_keys_def OptimizedFileCache_def dict_keys_def)


lemma evict_fits_or_empties:
  assumes "same_keys s"
  shows "current_memory_usage (evict_lru_if_needed n s) + n \<le> max_memory_bytes s
         \<or> cache (evict_lru_if_needed n s) = []"
proof (cases "current_memory_usage s + n \<le> max_memory_bytes s")
  case True
  then show ?thesis by (simp add: evict_lru_if_needed_def)
next
  case False
  let ?s' = "evict_loop (sort_key snd (access_times s)) n s"
  have e: "evict_lru_if_needed n s = ?s'"
    using False by (simp add: evict_lru_if_needed_def)
  from evict_loop_result [of "sort_key snd (access_times s)" n s]
  show ?thesis
  proof
    assume "current_memory_usage ?s' + n \<le> max_memory_bytes ?s'"
    then show ?thesis using e by simp
  next
    assume all: "\<forall>k \<in> set (map fst (sort_key snd (access_times s))). dict_get (cache ?s') k = None"
    have "cache ?s' = []"
    proof (rule ccontr)
      assume "cache ?s' \<noteq> []"
      then obtain k c where kc: "(k, c) \<in> set (cache ?s')"
        by (cases "cache ?s'") auto
      then have in': "k \<in> set (dict_keys (cache ?s'))"
        by (force simp: dict_keys_def)
      then have "dict_get (cache ?s') k \<noteq> None"
        by (simp add: get_None_iff)
      then have "dict_get (cache s) k \<noteq> None"
        by (rule contrapos_nn) (rule evict_loop_cache_keys)
      then have "k \<in> set (dict_keys (access_times s))"
        using assms by (simp add: same_keys_def get_None_iff)
      then have "dict_get (cache ?s') k = None"
        using all by (auto simp: dict_keys_def)
      with in' show False
        by (simp add: get_None_iff)
    qed
    then show ?thesis using e by simp
  qed
qed






















subsection \<open>Eviction\<close>

lemma oldest_in: "oldest xs = Some m \<Longrightarrow> m \<in> set xs"
  by (induction xs arbitrary: m) (auto split: option.splits if_splits)

lemma oldest_None: "oldest xs = None \<longleftrightarrow> xs = []"
  by (induction xs) (auto split: option.splits)

lemma oldest_least: "oldest xs = Some m \<Longrightarrow> x \<in> set xs \<Longrightarrow> snd m \<le> snd x"
proof (induction xs arbitrary: m)
  case Nil
  then show ?case by simp
next
  case (Cons y ys)
  show ?case
  proof (cases "oldest ys")
    case None
    then have "ys = []" by (simp add: oldest_None)
    with Cons.prems show ?thesis by simp
  next
    case (Some m')
    with Cons show ?thesis
      by (cases "snd y \<le> snd m'") (auto split: if_splits)
  qed
qed

lemma sort_oldest: "oldest xs = Some m \<Longrightarrow> sort_key snd xs = m # sort_key snd (remove1 m xs)"
proof (induction xs arbitrary: m)
  case Nil
  then show ?case by simp
next
  case (Cons x xs)
  show ?case
  proof (cases "oldest xs")
    case None
    then have "xs = []" by (simp add: oldest_None)
    with Cons.prems show ?thesis by simp
  next
    case (Some m')
    note ih = Cons.IH [OF Some]
    show ?thesis
    proof (cases "snd x \<le> snd m'")
      case True
      with Some Cons.prems have "m = x" by simp
      with True ih show ?thesis by simp
    next
      case False
      with Some Cons.prems have m: "m = m'" by simp
      with False have "x \<noteq> m" by auto
      with False m ih show ?thesis by simp
    qed
  qed
qed

lemma delete_remove1:
  "distinct (map fst xs) \<Longrightarrow> (k, t) \<in> set xs \<Longrightarrow> AList.delete k xs = remove1 (k, t) xs"
proof (induction xs)
  case Nil
  then show ?case by simp
next
  case (Cons x xs)
  show ?case
  proof (cases "fst x = k")
    case True
    with Cons.prems have "x = (k, t)" by (cases x) force
    moreover from Cons.prems True have "k \<notin> fst ` set xs" by auto
    ultimately show ?thesis by simp
  next
    case False
    with Cons show ?thesis by (cases x) auto
  qed
qed

lemma evict_loop_fits:
  "current_memory_usage s + n \<le> max_memory_bytes s \<Longrightarrow> evict_loop xs n s = s"
  by (cases xs) auto

lemma evict_loop_refines:
  "same_keys s \<Longrightarrow> evict_loop (sort_key snd (access_times s)) n s = evict_oldest_until_fits n s"
proof (induction n s rule: evict_oldest_until_fits.induct)
  case (1 n s)
  show ?case
  proof (cases "current_memory_usage s + n \<le> max_memory_bytes s")
    case True
    then show ?thesis
      by (subst evict_oldest_until_fits.simps) (simp add: evict_loop_fits)
  next
    case False
    show ?thesis
    proof (cases "oldest (access_times s)")
      case None
      then have "access_times s = []" by (simp add: oldest_None)
      with False None show ?thesis
        by (subst evict_oldest_until_fits.simps) simp
    next
      case (Some m)
      obtain fid t where m: "m = (fid, t)" by (cases m)
      have in_times: "(fid, t) \<in> set (access_times s)"
        using Some m oldest_in by metis
      then have "fid \<in> set (dict_keys (access_times s))"
        by (force simp: dict_keys_def)
      then have "dict_get (cache s) fid \<noteq> None"
        using "1.prems" by (simp add: same_keys_def get_None_iff)
      then obtain cached where c: "dict_get (cache s) fid = Some cached" by blast
      let ?s1 = "s\<lparr>cache := dict_pop (cache s) fid, access_times := dict_pop (access_times s) fid,
                    current_memory_usage := current_memory_usage s - memory_usage cached\<rparr>"
      have e: "evict_entry fid s = ?s1"
        using c by (simp add: evict_entry_def)
      have d: "distinct (map fst (access_times s))"
        using "1.prems" by (simp add: same_keys_def dict_keys_def)
      have t1: "access_times ?s1 = remove1 (fid, t) (access_times s)"
        using delete_remove1 [OF d in_times] by (simp add: dict_pop_def)
      have acc: "same_keys ?s1"
        using "1.prems" by (rule same_keys_pop)
      have sorted: "sort_key snd (access_times s) = (fid, t) # sort_key snd (access_times ?s1)"
        using sort_oldest [OF Some] m t1 by simp
      have "evict_loop (sort_key snd (access_times s)) n s = evict_loop (sort_key snd (access_times ?s1)) n ?s1"
        using False c by (simp add: sorted del: sort_key_simps)
      also have "\<dots> = evict_oldest_until_fits n ?s1"
        using "1.IH" [OF False Some m [symmetric]] acc e by simp
      also have "\<dots> = evict_oldest_until_fits n s"
        using False Some m e by (subst (2) evict_oldest_until_fits.simps) simp
      finally show ?thesis .
    qed
  qed
qed

lemma evict_refines:
  assumes "same_keys s"
  shows "evict_lru_if_needed n s = evict_oldest_until_fits n s"
proof (cases "current_memory_usage s + n \<le> max_memory_bytes s")
  case True
  then show ?thesis
    by (subst evict_oldest_until_fits.simps) (simp add: evict_lru_if_needed_def)
next
  case False
  then show ?thesis
    using assms by (simp add: evict_lru_if_needed_def evict_loop_refines)
qed

lemma lru_example_evict:
  assumes "budget < cost_a + cost_b + cost_c + d"
  shows "snapshot (evict_lru_if_needed d (lru_example budget cost_a cost_b cost_c)) =
           (if cost_b + cost_c + d \<le> budget then ([''C'', ''B''], [''C'', ''B''], [], cost_b + cost_c)
            else if cost_c + d \<le> budget then ([''C''], [''C''], [], cost_c)
            else ([], [], [], 0))"
  using assms
  by (simp add: lru_example_def evict_lru_if_needed_def snapshot_def sized_def CachedFile_def dict_defs)

text \<open>
  C4. In every state the cache reaches from its construction, \<open>cache\<close> and
  \<open>access_times\<close> have the same keys and \<^verbatim>\<open>evict_lru_if_needed\<close> does what
  \<open>evict_oldest_until_fits\<close> says: while the candidate does not fit and an entry is left,
  it takes the entry with the least access time (the first of them in the dictionary
  among equals), deletes it from \<open>cache\<close> and \<open>access_times\<close> and subtracts its cost.
  Afterwards the candidate fits or the cache is empty, and the insertion that follows
  stores the entry in either case. With A, B, C accessed at 1, 2, 3 and a candidate D that
  does not fit, A goes first; B goes next exactly if D still does not fit, and C stays
  whenever D fits beside it; when the four costs exceed the budget by the cost of A, only
  A goes.
\<close>

theorem eviction_takes_oldest_first:
  assumes "run ext evs (OptimizedFileCache mb k) = Some s"
  shows "evict_lru_if_needed n s = evict_oldest_until_fits n s
   \<and> (\<forall>fid t. oldest (access_times s) = Some (fid, t)
        \<longrightarrow> (fid, t) \<in> set (access_times s) \<and> dict_get (cache s) fid \<noteq> None
          \<and> (\<forall>x \<in> set (access_times s). t \<le> snd x))
   \<and> (current_memory_usage (evict_lru_if_needed n s) + n \<le> max_memory_bytes s
        \<or> cache (evict_lru_if_needed n s) = [])
   \<and> dict_get (cache (publish fid cached now (evict_lru_if_needed (memory_usage cached) s))) fid = Some cached
   \<and> (budget < cost_a + cost_b + cost_c + d \<longrightarrow>
        snapshot (evict_lru_if_needed d (lru_example budget cost_a cost_b cost_c)) =
           (if cost_b + cost_c + d \<le> budget then ([''C'', ''B''], [''C'', ''B''], [], cost_b + cost_c)
            else if cost_c + d \<le> budget then ([''C''], [''C''], [], cost_c)
            else ([], [], [], 0)))
   \<and> (0 < cost_a \<longrightarrow> cost_a + cost_b + cost_c + d = budget + cost_a \<longrightarrow>
        snapshot (evict_lru_if_needed d (lru_example budget cost_a cost_b cost_c)) =
          ([''C'', ''B''], [''C'', ''B''], [], cost_b + cost_c))"
proof -
  have sk: "same_keys s"
    using same_keys_run [OF same_keys_init assms] .
  have r: "evict_lru_if_needed n s = evict_oldest_until_fits n s"
    using sk by (rule evict_refines)
  have o: "(fid, t) \<in> set (access_times s) \<and> dict_get (cache s) fid \<noteq> None
          \<and> (\<forall>x \<in> set (access_times s). t \<le> snd x)"
    if "oldest (access_times s) = Some (fid, t)" for fid t
  proof -
    have i: "(fid, t) \<in> set (access_times s)"
      using that by (rule oldest_in)
    then have "fid \<in> set (dict_keys (access_times s))"
      by (force simp: dict_keys_def)
    then have "dict_get (cache s) fid \<noteq> None"
      using sk by (simp add: same_keys_def get_None_iff)
    moreover have "\<forall>x \<in> set (access_times s). t \<le> snd x"
      using oldest_least [OF that] by simp
    ultimately show ?thesis using i by simp
  qed
  have f: "current_memory_usage (evict_lru_if_needed n s) + n \<le> max_memory_bytes s
        \<or> cache (evict_lru_if_needed n s) = []"
    using sk by (rule evict_fits_or_empties)
  have p: "dict_get (cache (publish fid cached now (evict_lru_if_needed (memory_usage cached) s))) fid = Some cached"
    by (simp add: publish_def dict_get_set_same)
  have x: "budget < cost_a + cost_b + cost_c + d \<longrightarrow>
        snapshot (evict_lru_if_needed d (lru_example budget cost_a cost_b cost_c)) =
           (if cost_b + cost_c + d \<le> budget then ([''C'', ''B''], [''C'', ''B''], [], cost_b + cost_c)
            else if cost_c + d \<le> budget then ([''C''], [''C''], [], cost_c)
            else ([], [], [], 0))"
    using lru_example_evict by blast
  have y: "0 < cost_a \<longrightarrow> cost_a + cost_b + cost_c + d = budget + cost_a \<longrightarrow>
        snapshot (evict_lru_if_needed d (lru_example budget cost_a cost_b cost_c)) =
          ([''C'', ''B''], [''C'', ''B''], [], cost_b + cost_c)"
    using lru_example_evict [of budget cost_a cost_b cost_c d] by auto
  from r o f p x y show ?thesis by simp
qed

theorem eviction_takes_oldest_first_witness:
  "run demo_ext run_a (OptimizedFileCache 1 2) = Some state_a
   \<and> oldest (access_times state_a) = Some (''a'', 2)
   \<and> evict_oldest_until_fits 786432 state_a = evict_lru_if_needed 786432 state_a
   \<and> snapshot (evict_lru_if_needed 786432 state_a) = ([], [], [''a''], 0)
   \<and> (100::int) < 40 + 30 + 30 + 40
   \<and> snapshot (evict_lru_if_needed 40 (lru_example 100 40 30 30)) = ([''C'', ''B''], [''C'', ''B''], [], 60)
   \<and> snapshot (evict_lru_if_needed 50 (lru_example 100 40 30 30)) = ([''C''], [''C''], [], 30)"
proof -
  have o: "oldest (access_times state_a) = Some (''a'', 2)"
    by (simp add: state_a_def)
  have sn: "snapshot (evict_lru_if_needed 786432 state_a) = ([], [], [''a''], 0)"
    by (simp add: state_a_def cached_a_def run_defs dict_defs)
  note first = eviction_takes_oldest_first [where s = state_a and n = 786432
      and budget = 100 and cost_a = 40 and cost_b = 30 and cost_c = 30 and d = 40 and fid = "''D''"
      and cached = "sized ''D'' 40" and now = 4, OF run_a_state]
  note second = eviction_takes_oldest_first [where s = state_a and n = 786432
      and budget = 100 and cost_a = 40 and cost_b = 30 and cost_c = 30 and d = 50 and fid = "''D''"
      and cached = "sized ''D'' 50" and now = 4, OF run_a_state]
  from first have "evict_lru_if_needed 786432 state_a = evict_oldest_until_fits 786432 state_a"
    by (rule conjunct1)
  then have a: "evict_oldest_until_fits 786432 state_a = evict_lru_if_needed 786432 state_a"
    by (rule sym)
  from first have "(100::int) < 40 + 30 + 30 + 40 \<longrightarrow>
        snapshot (evict_lru_if_needed 40 (lru_example 100 40 30 30)) =
           (if (30::int) + 30 + 40 \<le> 100 then ([''C'', ''B''], [''C'', ''B''], [], 30 + 30)
            else if (30::int) + 40 \<le> 100 then ([''C''], [''C''], [], 30)
            else ([], [], [], 0))"
    by blast
  then have b: "snapshot (evict_lru_if_needed 40 (lru_example 100 40 30 30)) = ([''C'', ''B''], [''C'', ''B''], [], 60)"
    by simp
  from second have "(100::int) < 40 + 30 + 30 + 50 \<longrightarrow>
        snapshot (evict_lru_if_needed 50 (lru_example 100 40 30 30)) =
           (if (30::int) + 30 + 50 \<le> 100 then ([''C'', ''B''], [''C'', ''B''], [], 30 + 30)
            else if (30::int) + 50 \<le> 100 then ([''C''], [''C''], [], 30)
            else ([], [], [], 0))"
    by blast
  then have c: "snapshot (evict_lru_if_needed 50 (lru_example 100 40 30 30)) = ([''C''], [''C''], [], 30)"
    by simp
  from run_a_state o a sn b c show ?thesis by simp
qed

end
